theory Spec2Isabelle
  imports Main "HOL-Library.AList"
begin

section \<open>Errors raised by the Python code\<close>

datatype error = KeyError string | ValueError string | AttributeError string

section \<open>Parking lot: data model (parking\_lot.py)\<close>

text \<open>
  \<^verbatim>\<open>Vehicle\<close> has the subclasses \<^verbatim>\<open>Car\<close> and \<^verbatim>\<open>Motorcycle\<close>; the base class has no
  abstract method, so a plain \<^verbatim>\<open>Vehicle\<close> (or another subclass) can exist as well. The
  class of a vehicle is all that the \<^verbatim>\<open>isinstance\<close> tests of the strategies look at.
\<close>

datatype vehicle_class = Car | Motorcycle | OtherVehicle

record vehicle =
  license_plate :: string
  vehicle_class :: vehicle_class

text \<open>\<^verbatim>\<open>VehicleFactory.create_vehicle\<close>.\<close>

definition create_vehicle :: "string \<Rightarrow> string \<Rightarrow> error + vehicle" where
  "create_vehicle vehicle_type plate =
     (if vehicle_type = ''car'' then Inr \<lparr>license_plate = plate, vehicle_class = Car\<rparr>
      else if vehicle_type = ''motorcycle''
        then Inr \<lparr>license_plate = plate, vehicle_class = Motorcycle\<rparr>
      else Inl (ValueError (''Unknown vehicle type: '' @ vehicle_type)))"

text \<open>
  \<^verbatim>\<open>ParkingSpot\<close>: the size is a free-form Python string, the distance a Python integer,
  the parked vehicle is \<^verbatim>\<open>None\<close> or a vehicle.
\<close>

record parking_spot =
  spot_id :: string
  spot_size :: string
  distance_to_entrance :: int
  parked :: "vehicle option"

definition ParkingSpot_init :: "string \<Rightarrow> string \<Rightarrow> int \<Rightarrow> parking_spot" where
  "ParkingSpot_init sid sz dist =
     \<lparr>spot_id = sid, spot_size = sz, distance_to_entrance = dist, parked = None\<rparr>"

definition ParkingSpot_is_available :: "parking_spot \<Rightarrow> bool" where
  "ParkingSpot_is_available spot = (parked spot = None)"

definition ParkingSpot_park_vehicle :: "vehicle \<Rightarrow> parking_spot \<Rightarrow> parking_spot" where
  "ParkingSpot_park_vehicle v spot = spot\<lparr>parked := Some v\<rparr>"

definition ParkingSpot_remove_vehicle :: "parking_spot \<Rightarrow> vehicle option \<times> parking_spot" where
  "ParkingSpot_remove_vehicle spot = (parked spot, spot\<lparr>parked := None\<rparr>)"

record parking_level =
  level_id :: string
  spots :: "parking_spot list"

definition ParkingLevel_add_spot :: "parking_spot \<Rightarrow> parking_level \<Rightarrow> parking_level" where
  "ParkingLevel_add_spot spot level = level\<lparr>spots := spots level @ [spot]\<rparr>"

text \<open>
  A spot object is referred to by its position: the index of its level in
  \<^verbatim>\<open>ParkingLot.levels\<close> and its index in \<^verbatim>\<open>ParkingLevel.spots\<close>. Both lists only ever
  grow at the end, and every spot object is created inside \<^verbatim>\<open>add_parking_spot\<close> and
  stored in one place, so a position names one object for good.
\<close>

type_synonym spot_ref = "nat \<times> nat"

definition spot_at :: "parking_level list \<Rightarrow> spot_ref \<Rightarrow> parking_spot" where
  "spot_at levels r = spots (levels ! fst r) ! snd r"

definition update_spot ::
  "(parking_spot \<Rightarrow> parking_spot) \<Rightarrow> spot_ref \<Rightarrow> parking_level list \<Rightarrow> parking_level list" where
  "update_spot f r levels =
     levels[fst r := (levels ! fst r)\<lparr>spots := (spots (levels ! fst r))[snd r :=
        f (spots (levels ! fst r) ! snd r)]\<rparr>]"

text \<open>
  The sequence visited by \<^verbatim>\<open>for level in levels: for spot in level.spots\<close>: every spot
  with its reference, levels in list order and spots in list order within a level.
\<close>

definition level_spots :: "nat \<Rightarrow> parking_level \<Rightarrow> (spot_ref \<times> parking_spot) list" where
  "level_spots i level = map (\<lambda>(j, spot). ((i, j), spot)) (enumerate 0 (spots level))"

definition pool_spots :: "parking_level list \<Rightarrow> (spot_ref \<times> parking_spot) list" where
  "pool_spots levels = concat (map (\<lambda>(i, level). level_spots i level) (enumerate 0 levels))"

section \<open>Parking lot: allocation strategies\<close>

subsection \<open>\<^verbatim>\<open>FirstAvailableStrategy\<close>\<close>

definition FirstAvailable_can_fit :: "vehicle \<Rightarrow> parking_spot \<Rightarrow> bool" where
  "FirstAvailable_can_fit v spot =
     (if vehicle_class v = Motorcycle then True
      else if vehicle_class v = Car then spot_size spot \<in> set [''compact'', ''large'']
      else False)"

fun FirstAvailable_scan :: "vehicle \<Rightarrow> (spot_ref \<times> parking_spot) list \<Rightarrow> spot_ref option" where
  "FirstAvailable_scan v [] = None"
| "FirstAvailable_scan v ((r, spot) # rest) =
     (if ParkingSpot_is_available spot \<and> FirstAvailable_can_fit v spot then Some r
      else FirstAvailable_scan v rest)"

definition FirstAvailable_find_spot :: "vehicle \<Rightarrow> parking_level list \<Rightarrow> spot_ref option" where
  "FirstAvailable_find_spot v levels = FirstAvailable_scan v (pool_spots levels)"

subsection \<open>\<^verbatim>\<open>BestFitStrategy\<close>\<close>

definition BestFit_can_fit :: "vehicle \<Rightarrow> parking_spot \<Rightarrow> bool" where
  "BestFit_can_fit v spot =
     (if vehicle_class v = Motorcycle then True
      else if vehicle_class v = Car then spot_size spot \<in> set [''compact'', ''large'']
      else False)"

text \<open>
  The dictionary \<^verbatim>\<open>{'motorcycle': 0, 'compact': 1, 'large': 2}\<close>; subscripting it with any
  other string raises \<^verbatim>\<open>KeyError\<close>.
\<close>

definition size_priority :: "string \<Rightarrow> error + nat" where
  "size_priority sz =
     (if sz = ''motorcycle'' then Inr 0
      else if sz = ''compact'' then Inr 1
      else if sz = ''large'' then Inr 2
      else Inl (KeyError sz))"

text \<open>The left operand of \<^verbatim>\<open><\<close> is evaluated first, so its \<^verbatim>\<open>KeyError\<close> wins.\<close>

definition BestFit_is_better_spot :: "parking_spot \<Rightarrow> parking_spot \<Rightarrow> error + bool" where
  "BestFit_is_better_spot spot best_spot =
     (case size_priority (spot_size spot) of
        Inl e \<Rightarrow> Inl e
      | Inr p \<Rightarrow> (case size_priority (spot_size best_spot) of
          Inl e \<Rightarrow> Inl e
        | Inr q \<Rightarrow> Inr (p < q)))"

text \<open>The loop, with the variable \<^verbatim>\<open>best_spot\<close> as the accumulator.\<close>

fun BestFit_scan ::
  "vehicle \<Rightarrow> (spot_ref \<times> parking_spot) list \<Rightarrow> (spot_ref \<times> parking_spot) option
     \<Rightarrow> error + (spot_ref \<times> parking_spot) option" where
  "BestFit_scan v [] best_spot = Inr best_spot"
| "BestFit_scan v ((r, spot) # rest) best_spot =
     (if ParkingSpot_is_available spot \<and> BestFit_can_fit v spot then
        (case best_spot of
           None \<Rightarrow> BestFit_scan v rest (Some (r, spot))
         | Some (rb, best) \<Rightarrow>
             (case BestFit_is_better_spot spot best of
                Inl e \<Rightarrow> Inl e
              | Inr better \<Rightarrow>
                  BestFit_scan v rest (if better then Some (r, spot) else best_spot)))
      else BestFit_scan v rest best_spot)"

definition BestFit_find_spot :: "vehicle \<Rightarrow> parking_level list \<Rightarrow> error + spot_ref option" where
  "BestFit_find_spot v levels =
     (case BestFit_scan v (pool_spots levels) None of
        Inl e \<Rightarrow> Inl e
      | Inr best_spot \<Rightarrow> Inr (map_option fst best_spot))"

subsection \<open>\<^verbatim>\<open>ClosestToEntranceStrategy\<close>\<close>

definition Closest_can_fit :: "vehicle \<Rightarrow> parking_spot \<Rightarrow> bool" where
  "Closest_can_fit v spot =
     (if vehicle_class v = Motorcycle then True
      else if vehicle_class v = Car then spot_size spot \<in> set [''compact'', ''large'']
      else False)"

fun Closest_scan ::
  "vehicle \<Rightarrow> (spot_ref \<times> parking_spot) list \<Rightarrow> (spot_ref \<times> parking_spot) option
     \<Rightarrow> (spot_ref \<times> parking_spot) option" where
  "Closest_scan v [] closest_spot = closest_spot"
| "Closest_scan v ((r, spot) # rest) closest_spot =
     (if ParkingSpot_is_available spot \<and> Closest_can_fit v spot then
        (case closest_spot of
           None \<Rightarrow> Closest_scan v rest (Some (r, spot))
         | Some (rc, closest) \<Rightarrow>
             Closest_scan v rest
               (if distance_to_entrance spot < distance_to_entrance closest
                then Some (r, spot) else closest_spot))
      else Closest_scan v rest closest_spot)"

definition Closest_find_spot :: "vehicle \<Rightarrow> parking_level list \<Rightarrow> spot_ref option" where
  "Closest_find_spot v levels = map_option fst (Closest_scan v (pool_spots levels) None)"

subsection \<open>Dispatch on the strategy object\<close>

datatype parking_strategy = FirstAvailableStrategy | BestFitStrategy | ClosestToEntranceStrategy

fun can_fit :: "parking_strategy \<Rightarrow> vehicle \<Rightarrow> parking_spot \<Rightarrow> bool" where
  "can_fit FirstAvailableStrategy = FirstAvailable_can_fit"
| "can_fit BestFitStrategy = BestFit_can_fit"
| "can_fit ClosestToEntranceStrategy = Closest_can_fit"

fun find_spot :: "parking_strategy \<Rightarrow> vehicle \<Rightarrow> parking_level list \<Rightarrow> error + spot_ref option" where
  "find_spot FirstAvailableStrategy v levels = Inr (FirstAvailable_find_spot v levels)"
| "find_spot BestFitStrategy v levels = BestFit_find_spot v levels"
| "find_spot ClosestToEntranceStrategy v levels = Inr (Closest_find_spot v levels)"

section \<open>Parking lot: controller\<close>

record parking_controller =
  levels :: "parking_level list"
  allocation_strategy :: parking_strategy

definition ParkingLotController_init :: "parking_strategy \<Rightarrow> parking_controller" where
  "ParkingLotController_init strategy = \<lparr>levels = [], allocation_strategy = strategy\<rparr>"

text \<open>
  The loop of \<^verbatim>\<open>add_parking_spot\<close>: the first level with the given id gets the spot and
  the method returns; \<open>None\<close> means the loop ran to its end.
\<close>

fun add_to_level :: "string \<Rightarrow> parking_spot \<Rightarrow> parking_level list \<Rightarrow> parking_level list option" where
  "add_to_level lid spot [] = None"
| "add_to_level lid spot (level # rest) =
     (if level_id level = lid then Some (ParkingLevel_add_spot spot level # rest)
      else map_option (\<lambda>rest'. level # rest') (add_to_level lid spot rest))"

definition add_parking_spot ::
  "string \<Rightarrow> string \<Rightarrow> string \<Rightarrow> int \<Rightarrow> parking_controller \<Rightarrow> parking_controller" where
  "add_parking_spot lid sid sz dist c =
     (case add_to_level lid (ParkingSpot_init sid sz dist) (levels c) of
        Some levels' \<Rightarrow> c\<lparr>levels := levels'\<rparr>
      | None \<Rightarrow>
          c\<lparr>levels := levels c @
              [ParkingLevel_add_spot (ParkingSpot_init sid sz dist) \<lparr>level_id = lid, spots = []\<rparr>]\<rparr>)"

text \<open>
  \<^verbatim>\<open>park_vehicle\<close> returns a message; an exception of the strategy propagates and leaves
  the lot as it was. A \<^verbatim>\<open>ParkingSpot\<close> object is always truthy.
\<close>

definition park_vehicle :: "vehicle \<Rightarrow> parking_controller \<Rightarrow> (error + string) \<times> parking_controller" where
  "park_vehicle v c =
     (case find_spot (allocation_strategy c) v (levels c) of
        Inl e \<Rightarrow> (Inl e, c)
      | Inr None \<Rightarrow> (Inr ''No available spot'', c)
      | Inr (Some r) \<Rightarrow>
          (Inr (''Vehicle '' @ license_plate v @ '' parked in spot '' @ spot_id (spot_at (levels c) r)),
           c\<lparr>levels := update_spot (ParkingSpot_park_vehicle v) r (levels c)\<rparr>))"

fun unpark_scan :: "string \<Rightarrow> (spot_ref \<times> parking_spot) list \<Rightarrow> (spot_ref \<times> parking_spot) option" where
  "unpark_scan sid [] = None"
| "unpark_scan sid ((r, spot) # rest) =
     (if spot_id spot = sid \<and> \<not> ParkingSpot_is_available spot then Some (r, spot)
      else unpark_scan sid rest)"

text \<open>
  \<^verbatim>\<open>unpark_vehicle\<close> reads \<^verbatim>\<open>vehicle.license_plate\<close> of what \<^verbatim>\<open>remove_vehicle\<close> returned;
  on \<^verbatim>\<open>None\<close> that would be an \<^verbatim>\<open>AttributeError\<close> (after the spot was cleared).
\<close>

definition unpark_vehicle :: "string \<Rightarrow> parking_controller \<Rightarrow> (error + string) \<times> parking_controller" where
  "unpark_vehicle sid c =
     (case unpark_scan sid (pool_spots (levels c)) of
        Some (r, spot) \<Rightarrow>
          (case fst (ParkingSpot_remove_vehicle spot) of
             Some v \<Rightarrow> Inr (''Vehicle '' @ license_plate v @ '' removed from spot '' @ sid)
           | None \<Rightarrow> Inl (AttributeError ''license_plate''),
           c\<lparr>levels := update_spot (\<lambda>s. snd (ParkingSpot_remove_vehicle s)) r (levels c)\<rparr>)
      | None \<Rightarrow> (Inr ''Spot not found or already empty'', c))"

section \<open>Lockers: data model (locker\_and\_packages.py)\<close>

datatype PackageSize = SMALL | MEDIUM | LARGE

record package =
  package_size :: PackageSize
  customer_id :: string

record locker =
  locker_id :: string
  locker_size :: PackageSize
  stored :: "package option"

definition Locker_init :: "string \<Rightarrow> PackageSize \<Rightarrow> locker" where
  "Locker_init lid sz = \<lparr>locker_id = lid, locker_size = sz, stored = None\<rparr>"

definition Locker_is_available :: "locker \<Rightarrow> bool" where
  "Locker_is_available l = (stored l = None)"

definition Locker_store_package :: "package \<Rightarrow> locker \<Rightarrow> locker" where
  "Locker_store_package p l = l\<lparr>stored := Some p\<rparr>"

definition Locker_retrieve_package :: "locker \<Rightarrow> package option \<times> locker" where
  "Locker_retrieve_package l = (stored l, l\<lparr>stored := None\<rparr>)"

text \<open>
  \<^verbatim>\<open>Locker\<close> objects are shared: the lists of \<^verbatim>\<open>lockers_by_size\<close> and the values of
  \<^verbatim>\<open>lockers_by_customer\<close> refer to the same objects. The model keeps the objects in a
  store (\<open>objects\<close>, addressed by position) and the two dictionaries hold addresses.
  \<^verbatim>\<open>lockers_by_size\<close> is a \<^verbatim>\<open>defaultdict(list)\<close>, kept as an association list in
  insertion order (the order in which \<^verbatim>\<open>items()\<close> iterates); \<^verbatim>\<open>lockers_by_customer\<close> is a
  plain dictionary that is never iterated.
\<close>

type_synonym locker_ref = nat

record locker_manager =
  objects :: "locker list"
  lockers_by_size :: "(PackageSize \<times> locker_ref list) list"
  lockers_by_customer :: "string \<rightharpoonup> locker_ref"

text \<open>The state set up by the first call of \<^verbatim>\<open>LockerManager.__new__\<close>.\<close>

definition LockerManager_empty :: locker_manager where
  "LockerManager_empty = \<lparr>objects = [], lockers_by_size = [], lockers_by_customer = Map.empty\<rparr>"

text \<open>
  \<^verbatim>\<open>d[k]\<close> on a \<^verbatim>\<open>defaultdict(list)\<close>: a missing key is inserted with an empty list (at the
  end of the iteration order) before its value is returned.
\<close>

definition defaultdict_getitem ::
  "'k \<Rightarrow> ('k \<times> 'v list) list \<Rightarrow> 'v list \<times> ('k \<times> 'v list) list" where
  "defaultdict_getitem k d =
     (case map_of d k of Some v \<Rightarrow> (v, d) | None \<Rightarrow> ([], d @ [(k, [])]))"

text \<open>Creating a \<^verbatim>\<open>Locker\<close> object: a new address in the store.\<close>

definition new_locker :: "string \<Rightarrow> PackageSize \<Rightarrow> locker_manager \<Rightarrow> locker_ref \<times> locker_manager" where
  "new_locker lid sz m = (length (objects m), m\<lparr>objects := objects m @ [Locker_init lid sz]\<rparr>)"

text \<open>\<^verbatim>\<open>add_locker\<close>: \<^verbatim>\<open>self.lockers_by_size[locker.size].append(locker)\<close>.\<close>

definition LockerManager_add_locker :: "locker_ref \<Rightarrow> locker_manager \<Rightarrow> locker_manager" where
  "LockerManager_add_locker r m =
     (let sz = locker_size (objects m ! r);
          (lst, d) = defaultdict_getitem sz (lockers_by_size m)
      in m\<lparr>lockers_by_size := AList.update sz (lst @ [r]) d\<rparr>)"

text \<open>
  \<^verbatim>\<open>find_available_locker\<close> subscripts the \<^verbatim>\<open>defaultdict\<close>, so it can add an empty entry
  for the size it is asked about: it returns the new state too.
\<close>

definition LockerManager_find_available_locker ::
  "PackageSize \<Rightarrow> locker_manager \<Rightarrow> locker_ref option \<times> locker_manager" where
  "LockerManager_find_available_locker sz m =
     (let (lst, d) = defaultdict_getitem sz (lockers_by_size m);
          available_lockers = filter (\<lambda>r. Locker_is_available (objects m ! r)) lst
      in (case available_lockers of [] \<Rightarrow> None | r # _ \<Rightarrow> Some r, m\<lparr>lockers_by_size := d\<rparr>))"

definition LockerManager_find_locker_by_customer :: "string \<Rightarrow> locker_manager \<Rightarrow> locker_ref option" where
  "LockerManager_find_locker_by_customer cid m = lockers_by_customer m cid"

definition LockerManager_store_package :: "locker_ref \<Rightarrow> package \<Rightarrow> locker_manager \<Rightarrow> locker_manager" where
  "LockerManager_store_package r p m =
     m\<lparr>objects := (objects m)[r := Locker_store_package p (objects m ! r)],
       lockers_by_customer := (lockers_by_customer m)(customer_id p \<mapsto> r)\<rparr>"

text \<open>A \<^verbatim>\<open>Locker\<close> object is always truthy, so \<^verbatim>\<open>if locker:\<close> tests for \<^verbatim>\<open>None\<close> only.\<close>

definition LockerManager_retrieve_package ::
  "string \<Rightarrow> locker_manager \<Rightarrow> package option \<times> locker_manager" where
  "LockerManager_retrieve_package cid m =
     (case lockers_by_customer m cid of
        Some r \<Rightarrow>
          (fst (Locker_retrieve_package (objects m ! r)),
           m\<lparr>objects := (objects m)[r := snd (Locker_retrieve_package (objects m ! r))],
             lockers_by_customer := (lockers_by_customer m)(cid := None)\<rparr>)
      | None \<Rightarrow> (None, m))"

section \<open>Lockers: allocation strategies\<close>

datatype locker_strategy = LockerFirstAvailableStrategy | MostAvailableStrategy

definition LockerFirstAvailable_allocate_locker ::
  "package \<Rightarrow> locker_manager \<Rightarrow> locker_ref option \<times> locker_manager" where
  "LockerFirstAvailable_allocate_locker p m =
     LockerManager_find_available_locker (package_size p) m"

text \<open>
  The loop of \<^verbatim>\<open>MostAvailableStrategy\<close> over \<^verbatim>\<open>lockers_by_size.items()\<close>, with the
  variables \<^verbatim>\<open>max_available\<close> and \<^verbatim>\<open>best_size\<close> as accumulators.
\<close>

fun MostAvailable_scan ::
  "locker list \<Rightarrow> (PackageSize \<times> locker_ref list) list \<Rightarrow> int \<Rightarrow> PackageSize option
     \<Rightarrow> PackageSize option" where
  "MostAvailable_scan objs [] max_available best_size = best_size"
| "MostAvailable_scan objs ((sz, lockers) # rest) max_available best_size =
     (let available_count = int (length (filter (\<lambda>r. Locker_is_available (objs ! r)) lockers))
      in if available_count > max_available
         then MostAvailable_scan objs rest available_count (Some sz)
         else MostAvailable_scan objs rest max_available best_size)"

text \<open>Members of a plain \<^verbatim>\<open>Enum\<close> are truthy, so \<^verbatim>\<open>if best_size:\<close> tests for \<^verbatim>\<open>None\<close> only.\<close>

definition MostAvailable_allocate_locker ::
  "package \<Rightarrow> locker_manager \<Rightarrow> locker_ref option \<times> locker_manager" where
  "MostAvailable_allocate_locker p m =
     (case MostAvailable_scan (objects m) (lockers_by_size m) (- 1) None of
        Some best_size \<Rightarrow> LockerManager_find_available_locker best_size m
      | None \<Rightarrow> (None, m))"

fun allocate_locker ::
  "locker_strategy \<Rightarrow> package \<Rightarrow> locker_manager \<Rightarrow> locker_ref option \<times> locker_manager" where
  "allocate_locker LockerFirstAvailableStrategy = LockerFirstAvailable_allocate_locker"
| "allocate_locker MostAvailableStrategy = MostAvailable_allocate_locker"

section \<open>Lockers: controller\<close>

text \<open>
  The bodies of \<^verbatim>\<open>LockerController.receive_package\<close> and \<^verbatim>\<open>retrieve_package\<close>, on the
  state of the manager the controller holds and with the controller's strategy.
\<close>

definition receive_package ::
  "locker_strategy \<Rightarrow> package \<Rightarrow> locker_manager \<Rightarrow> string \<times> locker_manager" where
  "receive_package strategy p m =
     (case allocate_locker strategy p m of
        (Some r, m') \<Rightarrow> (locker_id (objects m' ! r), LockerManager_store_package r p m')
      | (None, m') \<Rightarrow> (''No available locker'', m'))"

datatype retrieved = Retrieved package | Message string

text \<open>A \<^verbatim>\<open>Package\<close> object is always truthy.\<close>

definition retrieve_package :: "string \<Rightarrow> locker_manager \<Rightarrow> retrieved \<times> locker_manager" where
  "retrieve_package cid m =
     (case LockerManager_retrieve_package cid m of
        (Some p, m') \<Rightarrow> (Retrieved p, m')
      | (None, m') \<Rightarrow> (Message ''Package not found'', m'))"

text \<open>
  The process: the \<^verbatim>\<open>LockerManager\<close> objects created so far and the class attribute
  \<^verbatim>\<open>LockerManager._instance\<close> (\<^verbatim>\<open>None\<close> or the address of one of them). A controller
  holds its strategy and the address of a manager.
\<close>

record process =
  managers :: "locker_manager list"
  cls_instance :: "nat option"

definition process_start :: process where
  "process_start = \<lparr>managers = [], cls_instance = None\<rparr>"

definition LockerManager_new :: "process \<Rightarrow> nat \<times> process" where
  "LockerManager_new ps =
     (case cls_instance ps of
        None \<Rightarrow> (length (managers ps),
                 ps\<lparr>managers := managers ps @ [LockerManager_empty],
                    cls_instance := Some (length (managers ps))\<rparr>)
      | Some a \<Rightarrow> (a, ps))"

record locker_controller =
  locker_strategy :: locker_strategy
  locker_manager :: nat

definition LockerController_init :: "locker_strategy \<Rightarrow> process \<Rightarrow> locker_controller \<times> process" where
  "LockerController_init strategy ps =
     (let (a, ps') = LockerManager_new ps
      in (\<lparr>locker_strategy = strategy, locker_manager = a\<rparr>, ps'))"

definition LockerController_set_strategy :: "locker_strategy \<Rightarrow> locker_controller \<Rightarrow> locker_controller" where
  "LockerController_set_strategy strategy c = c\<lparr>locker_strategy := strategy\<rparr>"

definition LockerController_receive_package ::
  "locker_controller \<Rightarrow> package \<Rightarrow> process \<Rightarrow> string \<times> process" where
  "LockerController_receive_package c p ps =
     (let (res, m') = receive_package (locker_strategy c) p (managers ps ! locker_manager c)
      in (res, ps\<lparr>managers := (managers ps)[locker_manager c := m']\<rparr>))"

definition LockerController_retrieve_package ::
  "locker_controller \<Rightarrow> string \<Rightarrow> process \<Rightarrow> retrieved \<times> process" where
  "LockerController_retrieve_package c cid ps =
     (let (res, m') = retrieve_package cid (managers ps ! locker_manager c)
      in (res, ps\<lparr>managers := (managers ps)[locker_manager c := m']\<rparr>))"


section \<open>Auxiliary notions for the specifications\<close>

text \<open>
  A scan that keeps the first element with the least measure among those satisfying a
  predicate; the loops of the best-fit and closest strategies are instances of it.
\<close>

fun first_min_scan :: "('a \<Rightarrow> bool) \<Rightarrow> ('a \<Rightarrow> 'b::linorder) \<Rightarrow> 'a list \<Rightarrow> 'a option \<Rightarrow> 'a option" where
  "first_min_scan P m [] acc = acc"
| "first_min_scan P m (x # xs) acc =
     (if P x then
        (case acc of None \<Rightarrow> first_min_scan P m xs (Some x)
         | Some b \<Rightarrow> first_min_scan P m xs (if m x < m b then Some x else acc))
      else first_min_scan P m xs acc)"


text \<open>
  References that name a spot of the lot, and the declaration order of spots: levels in
  the order of \<^verbatim>\<open>ParkingLot.levels\<close>, then spots in the order of their level's list.
\<close>

definition valid_ref :: "parking_level list \<Rightarrow> spot_ref \<Rightarrow> bool" where
  "valid_ref ls r = (fst r < length ls \<and> snd r < length (spots (ls ! fst r)))"

definition declared_before :: "spot_ref \<Rightarrow> spot_ref \<Rightarrow> bool" where
  "declared_before r r' = (fst r < fst r' \<or> (fst r = fst r' \<and> snd r < snd r'))"

text \<open>A spot is a candidate for a vehicle when it is free and the vehicle fits it.\<close>

definition candidate :: "parking_strategy \<Rightarrow> vehicle \<Rightarrow> parking_spot \<Rightarrow> bool" where
  "candidate strategy v spot = (ParkingSpot_is_available spot \<and> can_fit strategy v spot)"

text \<open>The value of a size in the priority table of the best-fit strategy, when it has one.\<close>

definition known_size :: "string \<Rightarrow> bool" where
  "known_size sz = (\<not> isl (size_priority sz))"

definition priority :: "parking_spot \<Rightarrow> nat" where
  "priority spot = projr (size_priority (spot_size spot))"

text \<open>
  The units selected by consecutive calls of \<^verbatim>\<open>park_vehicle\<close> on one controller, one call
  for each vehicle of the list.
\<close>

fun park_sequence :: "vehicle list \<Rightarrow> parking_controller \<Rightarrow> (error + spot_ref option) list" where
  "park_sequence [] c = []"
| "park_sequence (v # vs) c =
     find_spot (allocation_strategy c) v (levels c) # park_sequence vs (snd (park_vehicle v c))"

text \<open>The free spots a vehicle fits, in the order in which the strategies visit them.\<close>

definition free_compatible :: "parking_strategy \<Rightarrow> vehicle \<Rightarrow> parking_level list \<Rightarrow> spot_ref list" where
  "free_compatible strategy v ls =
     map fst (filter (\<lambda>(r, s). candidate strategy v s) (pool_spots ls))"

subsection \<open>Example lots\<close>

text \<open>The lot of the usage section of parking\_lot.py.\<close>

definition usage_lot :: "parking_strategy \<Rightarrow> parking_controller" where
  "usage_lot strategy =
     add_parking_spot ''Level2'' ''B2'' ''large'' 25
      (add_parking_spot ''Level2'' ''B1'' ''compact'' 20
        (add_parking_spot ''Level1'' ''A3'' ''motorcycle'' 15
          (add_parking_spot ''Level1'' ''A2'' ''large'' 5
            (add_parking_spot ''Level1'' ''A1'' ''compact'' 10
              (ParkingLotController_init strategy)))))"

text \<open>Three levels with one spot each, at distances 10, 5 and 15.\<close>

definition three_levels :: "parking_controller" where
  "three_levels =
     add_parking_spot ''L3'' ''C1'' ''compact'' 15
      (add_parking_spot ''L2'' ''B1'' ''compact'' 5
        (add_parking_spot ''L1'' ''A1'' ''compact'' 10
          (ParkingLotController_init ClosestToEntranceStrategy)))"

text \<open>A lot with a spot whose size is not in the priority table of the best-fit strategy.\<close>

definition small_spot_lot :: "parking_controller" where
  "small_spot_lot =
     add_parking_spot ''L1'' ''A2'' ''compact'' 5
      (add_parking_spot ''L1'' ''A1'' ''small'' 10
        (ParkingLotController_init BestFitStrategy))"

text \<open>A lot whose only spot has a size outside the priority table.\<close>

definition single_small_lot :: "parking_controller" where
  "single_small_lot =
     add_parking_spot ''L1'' ''A1'' ''small'' 10 (ParkingLotController_init BestFitStrategy)"

text \<open>A lot with two spots that carry the same id.\<close>

definition same_id_lot :: "parking_controller" where
  "same_id_lot =
     add_parking_spot ''L1'' ''A1'' ''large'' 5
      (add_parking_spot ''L1'' ''A1'' ''compact'' 10
        (ParkingLotController_init FirstAvailableStrategy))"

definition car :: "string \<Rightarrow> vehicle" where
  "car plate = \<lparr>license_plate = plate, vehicle_class = Car\<rparr>"

definition motorcycle :: "string \<Rightarrow> vehicle" where
  "motorcycle plate = \<lparr>license_plate = plate, vehicle_class = Motorcycle\<rparr>"

subsection \<open>Lockers: provisioning, sequences of operations, well-formed states\<close>

text \<open>
  Provisioning a locker as the usage section of locker\_and\_packages.py does:
  \<^verbatim>\<open>locker_manager.add_locker(Locker(locker_id, size))\<close>.
\<close>

definition provision_locker :: "string \<Rightarrow> PackageSize \<Rightarrow> locker_manager \<Rightarrow> locker_manager" where
  "provision_locker lid sz m = (let (r, m') = new_locker lid sz m in LockerManager_add_locker r m')"

text \<open>
  The operations a caller performs on the manager through a controller, and the state
  after a sequence of them.
\<close>

datatype operation =
    Provision string PackageSize
  | Allocate locker_strategy package
  | Release string

fun apply_operation :: "operation \<Rightarrow> locker_manager \<Rightarrow> locker_manager" where
  "apply_operation (Provision lid sz) m = provision_locker lid sz m"
| "apply_operation (Allocate strategy p) m = snd (receive_package strategy p m)"
| "apply_operation (Release cid) m = snd (retrieve_package cid m)"

fun run :: "operation list \<Rightarrow> locker_manager \<Rightarrow> locker_manager" where
  "run [] m = m"
| "run (x # xs) m = run xs (apply_operation x m)"

text \<open>The customer whose package a locker holds.\<close>

definition occupant :: "locker \<Rightarrow> string option" where
  "occupant l = map_option customer_id (stored l)"

text \<open>
  The lockers listed under a size, all lockers of the pool, and the free ones among
  them, in the order of the dictionary and of its lists.
\<close>

definition size_lockers :: "PackageSize \<Rightarrow> locker_manager \<Rightarrow> locker_ref list" where
  "size_lockers sz m = (case map_of (lockers_by_size m) sz of Some lst \<Rightarrow> lst | None \<Rightarrow> [])"

definition pool_lockers :: "locker_manager \<Rightarrow> locker_ref list" where
  "pool_lockers m = concat (map snd (lockers_by_size m))"

definition free_lockers :: "locker_manager \<Rightarrow> locker_ref list" where
  "free_lockers m = filter (\<lambda>r. Locker_is_available (objects m ! r)) (pool_lockers m)"

definition available_count :: "locker_manager \<Rightarrow> locker_ref list \<Rightarrow> nat" where
  "available_count m lst = length (filter (\<lambda>r. Locker_is_available (objects m ! r)) lst)"

text \<open>
  What holds of every Python state: the keys of a dictionary are distinct and every
  reference refers to an object.
\<close>

definition wf_manager :: "locker_manager \<Rightarrow> bool" where
  "wf_manager m =
     (distinct (map fst (lockers_by_size m)) \<and>
      (\<forall>r\<in>set (pool_lockers m). r < length (objects m)) \<and>
      (\<forall>cid r. lockers_by_customer m cid = Some r \<longrightarrow> r < length (objects m)))"

subsection \<open>Example locker states\<close>

text \<open>Two small lockers and one large locker.\<close>

definition three_lockers :: locker_manager where
  "three_lockers =
     run [Provision ''SMALL_0'' SMALL, Provision ''SMALL_1'' SMALL, Provision ''LARGE_0'' LARGE]
       LockerManager_empty"

definition small_package :: "string \<Rightarrow> package" where
  "small_package cid = \<lparr>package_size = SMALL, customer_id = cid\<rparr>"

definition large_package :: "string \<Rightarrow> package" where
  "large_package cid = \<lparr>package_size = LARGE, customer_id = cid\<rparr>"

text \<open>Every entry of the customer index points at a locker that holds that customer's package.\<close>

definition index_sound :: "locker_manager \<Rightarrow> bool" where
  "index_sound m =
     (\<forall>cid r. lockers_by_customer m cid = Some r \<longrightarrow>
        r < length (objects m) \<and> occupant (objects m ! r) = Some cid)"

text \<open>
  A sequence of operations in which no package is received for a customer who has an
  entry in the customer index at that moment.
\<close>

fun guarded :: "operation list \<Rightarrow> locker_manager \<Rightarrow> bool" where
  "guarded [] m = True"
| "guarded (Allocate strategy p # xs) m =
     (lockers_by_customer m (customer_id p) = None \<and>
      guarded xs (apply_operation (Allocate strategy p) m))"
| "guarded (x # xs) m = guarded xs (apply_operation x m)"

text \<open>Every locker that holds a package is the one the index gives for that customer.\<close>

definition index_complete :: "locker_manager \<Rightarrow> bool" where
  "index_complete m =
     (\<forall>cid r. r < length (objects m) \<and> occupant (objects m ! r) = Some cid \<longrightarrow>
        lockers_by_customer m cid = Some r)"

subsection \<open>Controllers in one process\<close>

text \<open>
  The process together with the controllers constructed so far, and what a program does
  with them: construct a controller, replace a controller's strategy, provision a locker
  through \<^verbatim>\<open>LockerManager()\<close> as the usage section does, receive or retrieve a package
  through one of the controllers (named by its position in the list).
\<close>

record world =
  proc :: process
  controllers :: "locker_controller list"

definition world_start :: world where
  "world_start = \<lparr>proc = process_start, controllers = []\<rparr>"

datatype action =
    Construct locker_strategy
  | SetStrategy nat locker_strategy
  | ProvisionDirect string PackageSize
  | ReceiveVia nat package
  | RetrieveVia nat string

fun act :: "action \<Rightarrow> world \<Rightarrow> world" where
  "act (Construct strategy) w =
     (let (c, ps) = LockerController_init strategy (proc w)
      in \<lparr>proc = ps, controllers = controllers w @ [c]\<rparr>)"
| "act (SetStrategy i strategy) w =
     (if i < length (controllers w)
      then w\<lparr>controllers := (controllers w)[i := LockerController_set_strategy strategy (controllers w ! i)]\<rparr>
      else w)"
| "act (ProvisionDirect lid sz) w =
     (let (a, ps) = LockerManager_new (proc w)
      in w\<lparr>proc := ps\<lparr>managers := (managers ps)[a := provision_locker lid sz (managers ps ! a)]\<rparr>\<rparr>)"
| "act (ReceiveVia i p) w =
     (if i < length (controllers w)
      then w\<lparr>proc := snd (LockerController_receive_package (controllers w ! i) p (proc w))\<rparr>
      else w)"
| "act (RetrieveVia i cid) w =
     (if i < length (controllers w)
      then w\<lparr>proc := snd (LockerController_retrieve_package (controllers w ! i) cid (proc w))\<rparr>
      else w)"

fun run_world :: "action list \<Rightarrow> world \<Rightarrow> world" where
  "run_world [] w = w"
| "run_world (x # xs) w = run_world xs (act x w)"

text \<open>
  Either no manager exists yet and no controller either, or exactly one manager exists,
  the class attribute holds its address and every controller holds that address.
\<close>

definition single_manager :: "world \<Rightarrow> bool" where
  "single_manager w =
     (case cls_instance (proc w) of
        None \<Rightarrow> managers (proc w) = [] \<and> controllers w = []
      | Some a \<Rightarrow> a = 0 \<and> length (managers (proc w)) = 1 \<and>
          (\<forall>c\<in>set (controllers w). locker_manager c = 0))"

text \<open>An example: two lockers, a controller, a package received, a second controller.\<close>

definition two_controllers :: world where
  "two_controllers =
     run_world [ProvisionDirect ''SMALL_0'' SMALL, ProvisionDirect ''SMALL_1'' SMALL,
                Construct LockerFirstAvailableStrategy,
                ReceiveVia 0 (small_package ''customer_1''),
                Construct MostAvailableStrategy] world_start"


section \<open>The sequence of spots visited by the strategies\<close>

lemma level_spots_nth:
  "j < length (spots lv) \<Longrightarrow> level_spots i lv ! j = ((i, j), spots lv ! j)"
  by (simp add: level_spots_def nth_enumerate_eq)

lemma length_level_spots [simp]: "length (level_spots i lv) = length (spots lv)"
  by (simp add: level_spots_def)

lemma set_level_spots:
  "set (level_spots i lv) = {((i, j), spots lv ! j) | j. j < length (spots lv)}"
  by (auto simp: level_spots_def in_set_enumerate_eq image_iff) 

lemma map_fst_level_spots: "map fst (level_spots i lv) = map (Pair i) [0..<length (spots lv)]"
  by (rule nth_equalityI) (simp_all add: level_spots_nth)

lemma set_pool_from:
  "set (concat (map (\<lambda>(i, level). level_spots i level) (enumerate n ls))) =
     {((n + i, j), spots (ls ! i) ! j) | i j. i < length ls \<and> j < length (spots (ls ! i))}"
proof (induction ls arbitrary: n)
  case Nil
  then show ?case by simp
next
  case (Cons l ls)
  have "{((n + i, j), spots ((l # ls) ! i) ! j) | i j. i < length (l # ls) \<and> j < length (spots ((l # ls) ! i))}
      = {((n, j), spots l ! j) | j. j < length (spots l)} \<union>
        {((Suc n + i, j), spots (ls ! i) ! j) | i j. i < length ls \<and> j < length (spots (ls ! i))}"
    (is "?A = ?B \<union> ?C")
  proof (rule set_eqI)
    fix x :: "spot_ref \<times> parking_spot"
    show "x \<in> ?A \<longleftrightarrow> x \<in> ?B \<union> ?C"
    proof
      assume "x \<in> ?A"
      then obtain i j where x: "x = ((n + i, j), spots ((l # ls) ! i) ! j)" "i < length (l # ls)"
        "j < length (spots ((l # ls) ! i))" by blast
      show "x \<in> ?B \<union> ?C"
      proof (cases i)
        case 0
        then show ?thesis using x by simp
      next
        case (Suc k)
        then have "x = ((Suc n + k, j), spots (ls ! k) ! j) \<and> k < length ls \<and> j < length (spots (ls ! k))"
          using x by simp
        then show ?thesis by blast
      qed
    next
      assume "x \<in> ?B \<union> ?C"
      then show "x \<in> ?A"
      proof
        assume "x \<in> ?B"
        then obtain j where "x = ((n, j), spots l ! j)" "j < length (spots l)" by blast
        then have "x = ((n + 0, j), spots ((l # ls) ! 0) ! j) \<and> 0 < length (l # ls) \<and>
           j < length (spots ((l # ls) ! 0))" by simp
        then show ?thesis by blast
      next
        assume "x \<in> ?C"
        then obtain i j where "x = ((Suc n + i, j), spots (ls ! i) ! j)" "i < length ls"
          "j < length (spots (ls ! i))" by blast
        then have "x = ((n + Suc i, j), spots ((l # ls) ! Suc i) ! j) \<and> Suc i < length (l # ls) \<and>
           j < length (spots ((l # ls) ! Suc i))" by simp
        then show ?thesis by blast
      qed
    qed
  qed
  then show ?case using Cons.IH[of "Suc n"] by (simp add: set_level_spots)
qed

lemma set_pool_spots:
  "set (pool_spots ls) =
     {((i, j), spots (ls ! i) ! j) | i j. i < length ls \<and> j < length (spots (ls ! i))}"
  using set_pool_from[of 0 ls] by (simp add: pool_spots_def)

lemma in_pool_spots_iff:
  "(r, s) \<in> set (pool_spots ls) \<longleftrightarrow>
     fst r < length ls \<and> snd r < length (spots (ls ! fst r)) \<and> s = spot_at ls r"
  by (cases r) (auto simp: set_pool_spots spot_at_def)

lemma distinct_pool_from:
  "distinct (map fst (concat (map (\<lambda>(i, level). level_spots i level) (enumerate n ls))))"
proof (induction ls arbitrary: n)
  case Nil
  then show ?case by simp
next
  case (Cons l ls)
  have d1: "distinct (map fst (level_spots n l))"
    by (simp add: map_fst_level_spots distinct_map inj_on_def)
  have "fst ` set (level_spots n l) \<inter>
        fst ` set (concat (map (\<lambda>(i, level). level_spots i level) (enumerate (Suc n) ls))) = {}"
    unfolding set_pool_from set_level_spots by auto
  then show ?case using d1 Cons.IH[of "Suc n"] by simp
qed

lemma distinct_pool_spots: "distinct (map fst (pool_spots ls))"
  using distinct_pool_from[of 0 ls] by (simp add: pool_spots_def)

lemma level_spots_update:
  "level_spots i (lv\<lparr>spots := (spots lv)[j := f (spots lv ! j)]\<rparr>) =
     map (\<lambda>(r', s). (r', if r' = (i, j) then f s else s)) (level_spots i lv)"
  by (rule nth_equalityI) (auto simp: level_spots_nth nth_list_update)

lemma level_spots_other:
  "i' \<noteq> i \<Longrightarrow> map (\<lambda>(r', s). (r', if r' = (i, j) then f s else s)) (level_spots i' lv)
      = level_spots i' lv"
  by (rule nth_equalityI) (auto simp: level_spots_nth)

lemma pool_from_update:
  "concat (map (\<lambda>(i, level). level_spots i level)
      (enumerate n (ls[k := (ls ! k)\<lparr>spots := (spots (ls ! k))[j := f (spots (ls ! k) ! j)]\<rparr>]))) =
   map (\<lambda>(r', s). (r', if r' = (n + k, j) then f s else s))
     (concat (map (\<lambda>(i, level). level_spots i level) (enumerate n ls)))"
proof (induction ls arbitrary: n k)
  case Nil
  then show ?case by simp
next
  case (Cons l ls)
  show ?case
  proof (cases k)
    case 0
    have "map (\<lambda>(r', s). (r', if r' = (n, j) then f s else s))
            (concat (map (\<lambda>(i, level). level_spots i level) (enumerate (Suc n) ls)))
          = concat (map (\<lambda>(i, level). level_spots i level) (enumerate (Suc n) ls))"
    proof (rule map_idI)
      fix x assume "x \<in> set (concat (map (\<lambda>(i, level). level_spots i level) (enumerate (Suc n) ls)))"
      then obtain i j' s where "x = ((Suc n + i, j'), s)" unfolding set_pool_from by blast
      then show "(case x of (r', s) \<Rightarrow> (r', if r' = (n, j) then f s else s)) = x" by simp
    qed
    then show ?thesis using 0 by (simp add: level_spots_update)
  next
    case (Suc k')
    then show ?thesis using Cons.IH[of "Suc n" k'] by (simp add: level_spots_other)
  qed
qed

lemma pool_spots_update:
  "pool_spots (update_spot f r ls) =
     map (\<lambda>(r', s). (r', if r' = r then f s else s)) (pool_spots ls)"
  using pool_from_update[of 0 ls "fst r" "snd r" f]
  by (cases r) (simp add: pool_spots_def update_spot_def)


lemma sorted_pool_from:
  "sorted_wrt declared_before (map fst (concat (map (\<lambda>(i, level). level_spots i level) (enumerate n ls))))"
proof (induction ls arbitrary: n)
  case Nil
  then show ?case by simp
next
  case (Cons l ls)
  have s1: "sorted_wrt declared_before (map fst (level_spots n l))"
    by (simp add: map_fst_level_spots sorted_wrt_map declared_before_def)
  have "\<forall>x\<in>fst ` set (level_spots n l).
        \<forall>y\<in>fst ` set (concat (map (\<lambda>(i, level). level_spots i level) (enumerate (Suc n) ls))).
          declared_before x y"
    unfolding set_pool_from set_level_spots by (auto simp: declared_before_def)
  then show ?case using s1 Cons.IH[of "Suc n"] by (simp add: sorted_wrt_append)
qed

lemma sorted_pool_spots: "sorted_wrt declared_before (map fst (pool_spots ls))"
  using sorted_pool_from[of 0 ls] by (simp add: pool_spots_def)

lemma in_pool_spots_valid:
  "(r, s) \<in> set (pool_spots ls) \<longleftrightarrow> valid_ref ls r \<and> s = spot_at ls r"
  by (simp add: in_pool_spots_iff valid_ref_def)

lemma pool_split_order:
  assumes "pool_spots ls = pre @ (r, s) # post"
  shows "valid_ref ls r" "s = spot_at ls r"
    "\<And>r'. valid_ref ls r' \<Longrightarrow> r' \<noteq> r \<Longrightarrow> \<not> declared_before r r' \<Longrightarrow> (r', spot_at ls r') \<in> set pre"
    "\<And>r'. valid_ref ls r' \<Longrightarrow> declared_before r r' \<Longrightarrow> (r', spot_at ls r') \<in> set post"
    "\<And>r' s'. (r', s') \<in> set pre \<Longrightarrow> declared_before r' r"
    "\<And>r' s'. (r', s') \<in> set post \<Longrightarrow> declared_before r r'"
proof -
  have m: "(r, s) \<in> set (pool_spots ls)" using assms by simp
  then show "valid_ref ls r" "s = spot_at ls r" by (simp_all add: in_pool_spots_valid)
  have srt: "sorted_wrt declared_before (map fst pre @ r # map fst post)"
    using sorted_pool_spots[of ls] assms by simp
  show pre: "\<And>r' s'. (r', s') \<in> set pre \<Longrightarrow> declared_before r' r"
    using srt by (force simp: sorted_wrt_append)
  show post: "\<And>r' s'. (r', s') \<in> set post \<Longrightarrow> declared_before r r'"
    using srt by (force simp: sorted_wrt_append)
  have asym: "\<And>a b. declared_before a b \<Longrightarrow> \<not> declared_before b a"
    by (auto simp: declared_before_def)
  have irr: "\<And>a. \<not> declared_before a a" by (auto simp: declared_before_def)
  {
    fix r' assume v: "valid_ref ls r'"
    then have "(r', spot_at ls r') \<in> set (pool_spots ls)" by (simp add: in_pool_spots_valid)
    then have cases: "(r', spot_at ls r') \<in> set pre \<or> (r', spot_at ls r') = (r, s) \<or> (r', spot_at ls r') \<in> set post"
      using assms by auto
    {
      assume "r' \<noteq> r" "\<not> declared_before r r'"
      then show "(r', spot_at ls r') \<in> set pre" using cases post by blast
    }
    {
      assume d: "declared_before r r'"
      then have "r' \<noteq> r" using irr by blast
      then show "(r', spot_at ls r') \<in> set post" using cases pre asym d by blast
    }
  }
qed


section \<open>The ranking loops keep the first minimum\<close>

lemma first_min_scan_Some:
  "\<exists>x. first_min_scan P m xs (Some b) = Some x \<and>
     ((x = b \<and> (\<forall>y\<in>set xs. P y \<longrightarrow> m b \<le> m y)) \<or>
      (\<exists>pre post. xs = pre @ x # post \<and> P x \<and> m x < m b \<and>
          (\<forall>y\<in>set pre. P y \<longrightarrow> m x < m y) \<and> (\<forall>y\<in>set post. P y \<longrightarrow> m x \<le> m y)))"
proof (induction xs arbitrary: b)
  case Nil
  then show ?case by simp
next
  case (Cons y ys)
  show ?case
  proof (cases "P y \<and> m y < m b")
    case True
    from Cons.IH[of y] obtain x where x: "first_min_scan P m ys (Some y) = Some x"
      and d: "(x = y \<and> (\<forall>z\<in>set ys. P z \<longrightarrow> m y \<le> m z)) \<or>
      (\<exists>pre post. ys = pre @ x # post \<and> P x \<and> m x < m y \<and>
          (\<forall>z\<in>set pre. P z \<longrightarrow> m x < m z) \<and> (\<forall>z\<in>set post. P z \<longrightarrow> m x \<le> m z))" by blast
    have r: "first_min_scan P m (y # ys) (Some b) = Some x" using x True by simp
    have "\<exists>pre post. y # ys = pre @ x # post \<and> P x \<and> m x < m b \<and>
          (\<forall>z\<in>set pre. P z \<longrightarrow> m x < m z) \<and> (\<forall>z\<in>set post. P z \<longrightarrow> m x \<le> m z)"
      using d
    proof
      assume a: "x = y \<and> (\<forall>z\<in>set ys. P z \<longrightarrow> m y \<le> m z)"
      show ?thesis
        by (rule exI[of _ "[]"], rule exI[of _ ys]) (use a True in simp)
    next
      assume "\<exists>pre post. ys = pre @ x # post \<and> P x \<and> m x < m y \<and>
          (\<forall>z\<in>set pre. P z \<longrightarrow> m x < m z) \<and> (\<forall>z\<in>set post. P z \<longrightarrow> m x \<le> m z)"
      then obtain pre post where p: "ys = pre @ x # post" "P x" "m x < m y"
          "\<forall>z\<in>set pre. P z \<longrightarrow> m x < m z" "\<forall>z\<in>set post. P z \<longrightarrow> m x \<le> m z" by blast
      show ?thesis
        by (rule exI[of _ "y # pre"], rule exI[of _ post]) (use p True in auto)
    qed
    then show ?thesis using r by blast
  next
    case False
    from Cons.IH[of b] obtain x where x: "first_min_scan P m ys (Some b) = Some x"
      and d: "(x = b \<and> (\<forall>z\<in>set ys. P z \<longrightarrow> m b \<le> m z)) \<or>
      (\<exists>pre post. ys = pre @ x # post \<and> P x \<and> m x < m b \<and>
          (\<forall>z\<in>set pre. P z \<longrightarrow> m x < m z) \<and> (\<forall>z\<in>set post. P z \<longrightarrow> m x \<le> m z))" by blast
    have r: "first_min_scan P m (y # ys) (Some b) = Some x" using x False by auto
    from d show ?thesis
    proof
      assume a: "x = b \<and> (\<forall>z\<in>set ys. P z \<longrightarrow> m b \<le> m z)"
      then have "x = b \<and> (\<forall>z\<in>set (y # ys). P z \<longrightarrow> m b \<le> m z)" using False by auto
      then show ?thesis using r by blast
    next
      assume "\<exists>pre post. ys = pre @ x # post \<and> P x \<and> m x < m b \<and>
          (\<forall>z\<in>set pre. P z \<longrightarrow> m x < m z) \<and> (\<forall>z\<in>set post. P z \<longrightarrow> m x \<le> m z)"
      then obtain pre post where p: "ys = pre @ x # post" "P x" "m x < m b"
          "\<forall>z\<in>set pre. P z \<longrightarrow> m x < m z" "\<forall>z\<in>set post. P z \<longrightarrow> m x \<le> m z" by blast
      have "\<exists>pre post. y # ys = pre @ x # post \<and> P x \<and> m x < m b \<and>
          (\<forall>z\<in>set pre. P z \<longrightarrow> m x < m z) \<and> (\<forall>z\<in>set post. P z \<longrightarrow> m x \<le> m z)"
        by (rule exI[of _ "y # pre"], rule exI[of _ post]) (use p False in auto)
      then show ?thesis using r by blast
    qed
  qed
qed

lemma first_min_scan_None_empty:
  "\<forall>x\<in>set xs. \<not> P x \<Longrightarrow> first_min_scan P m xs acc = acc"
  by (induction xs) auto

lemma first_min_scan_None:
  assumes "\<exists>x\<in>set xs. P x"
  shows "\<exists>pre x post. first_min_scan P m xs None = Some x \<and> xs = pre @ x # post \<and> P x \<and>
          (\<forall>y\<in>set pre. P y \<longrightarrow> m x < m y) \<and> (\<forall>y\<in>set post. P y \<longrightarrow> m x \<le> m y)"
  using assms
proof (induction xs)
  case Nil
  then show ?case by simp
next
  case (Cons y ys)
  show ?case
  proof (cases "P y")
    case True
    from first_min_scan_Some[of P m ys y] obtain x where x: "first_min_scan P m ys (Some y) = Some x"
      and d: "(x = y \<and> (\<forall>z\<in>set ys. P z \<longrightarrow> m y \<le> m z)) \<or>
      (\<exists>pre post. ys = pre @ x # post \<and> P x \<and> m x < m y \<and>
          (\<forall>z\<in>set pre. P z \<longrightarrow> m x < m z) \<and> (\<forall>z\<in>set post. P z \<longrightarrow> m x \<le> m z))" by blast
    have r: "first_min_scan P m (y # ys) None = Some x" using x True by simp
    from d show ?thesis
    proof
      assume a: "x = y \<and> (\<forall>z\<in>set ys. P z \<longrightarrow> m y \<le> m z)"
      then have "y # ys = [] @ x # ys \<and> P x \<and>
          (\<forall>z\<in>set []. P z \<longrightarrow> m x < m z) \<and> (\<forall>z\<in>set ys. P z \<longrightarrow> m x \<le> m z)"
        using True by simp
      then show ?thesis using r by blast
    next
      assume "\<exists>pre post. ys = pre @ x # post \<and> P x \<and> m x < m y \<and>
          (\<forall>z\<in>set pre. P z \<longrightarrow> m x < m z) \<and> (\<forall>z\<in>set post. P z \<longrightarrow> m x \<le> m z)"
      then obtain pre post where p: "ys = pre @ x # post" "P x" "m x < m y"
          "\<forall>z\<in>set pre. P z \<longrightarrow> m x < m z" "\<forall>z\<in>set post. P z \<longrightarrow> m x \<le> m z" by blast
      have "y # ys = (y # pre) @ x # post \<and> P x \<and>
          (\<forall>z\<in>set (y # pre). P z \<longrightarrow> m x < m z) \<and> (\<forall>z\<in>set post. P z \<longrightarrow> m x \<le> m z)"
        using p True by auto
      then show ?thesis using r by blast
    qed
  next
    case False
    then have "\<exists>x\<in>set ys. P x" using Cons.prems by auto
    from Cons.IH[OF this] obtain pre x post where p: "first_min_scan P m ys None = Some x"
       "ys = pre @ x # post" "P x"
          "\<forall>z\<in>set pre. P z \<longrightarrow> m x < m z" "\<forall>z\<in>set post. P z \<longrightarrow> m x \<le> m z" by blast
    have r: "first_min_scan P m (y # ys) None = Some x" using p False by simp
    have "y # ys = (y # pre) @ x # post \<and> P x \<and>
          (\<forall>z\<in>set (y # pre). P z \<longrightarrow> m x < m z) \<and> (\<forall>z\<in>set post. P z \<longrightarrow> m x \<le> m z)"
        using p False by auto
    then show ?thesis using r by blast
  qed
qed

lemma can_fit_same: "BestFit_can_fit = FirstAvailable_can_fit" "Closest_can_fit = FirstAvailable_can_fit"
  by (auto simp: fun_eq_iff BestFit_can_fit_def FirstAvailable_can_fit_def Closest_can_fit_def)

lemma Closest_scan_first_min:
  "Closest_scan v xs acc =
     first_min_scan (\<lambda>(r, s). ParkingSpot_is_available s \<and> Closest_can_fit v s)
        (\<lambda>(r, s). distance_to_entrance s) xs acc"
  by (induction v xs acc rule: Closest_scan.induct) (auto split: option.splits)


section \<open>Compatibility of a vehicle and a spot\<close>

text \<open>
  C7. The three strategies decide whether a vehicle fits a spot by the same rule, a total
  function of the vehicle's class and the spot's size: a motorcycle fits a spot of any
  size, a car fits exactly the sizes \<^verbatim>\<open>compact\<close> and \<^verbatim>\<open>large\<close>, and nothing else fits.
\<close>

theorem can_fit_rule_set:
  "can_fit strategy v spot \<longleftrightarrow>
     (vehicle_class v = Motorcycle \<or>
      (vehicle_class v = Car \<and> (spot_size spot = ''compact'' \<or> spot_size spot = ''large'')))"
  by (cases strategy) (auto simp: BestFit_can_fit_def FirstAvailable_can_fit_def Closest_can_fit_def)


section \<open>First available spot\<close>

lemma FirstAvailable_scan_filter:
  "FirstAvailable_scan v xs =
     (case filter (\<lambda>(r, s). candidate FirstAvailableStrategy v s) xs of
        [] \<Rightarrow> None | (r, s) # _ \<Rightarrow> Some r)"
  by (induction v xs rule: FirstAvailable_scan.induct) (auto simp: candidate_def)


lemma declared_before_order:
  "\<not> declared_before a a" "declared_before a b \<Longrightarrow> \<not> declared_before b a"
  "a \<noteq> b \<Longrightarrow> \<not> declared_before a b \<Longrightarrow> declared_before b a"
  by (auto simp: declared_before_def prod_eq_iff)

lemma FirstAvailable_find_spot_None:
  "FirstAvailable_find_spot v ls = None \<longleftrightarrow>
     (\<forall>r. valid_ref ls r \<longrightarrow> \<not> candidate FirstAvailableStrategy v (spot_at ls r))"
proof -
  have "FirstAvailable_find_spot v ls = None \<longleftrightarrow>
      filter (\<lambda>(r, s). candidate FirstAvailableStrategy v s) (pool_spots ls) = []"
    by (simp add: FirstAvailable_find_spot_def FirstAvailable_scan_filter split: list.splits)
  also have "\<dots> \<longleftrightarrow> (\<forall>x\<in>set (pool_spots ls). \<not> (case x of (r, s) \<Rightarrow> candidate FirstAvailableStrategy v s))"
    by (simp add: filter_empty_conv)
  also have "\<dots> \<longleftrightarrow> (\<forall>r. valid_ref ls r \<longrightarrow> \<not> candidate FirstAvailableStrategy v (spot_at ls r))"
    by (auto simp: in_pool_spots_valid)
  finally show ?thesis .
qed

lemma FirstAvailable_find_spot_Some_D:
  assumes "FirstAvailable_find_spot v ls = Some r"
  shows "valid_ref ls r \<and> candidate FirstAvailableStrategy v (spot_at ls r) \<and>
     (\<forall>r'. valid_ref ls r' \<and> declared_before r' r \<longrightarrow> \<not> candidate FirstAvailableStrategy v (spot_at ls r'))"
proof -
  let ?P = "\<lambda>(r, s). candidate FirstAvailableStrategy v s"
  from assms obtain s rest where f: "filter ?P (pool_spots ls) = (r, s) # rest"
    by (auto simp: FirstAvailable_find_spot_def FirstAvailable_scan_filter split: list.splits)
  then obtain us vs where sp: "pool_spots ls = us @ (r, s) # vs" and us: "\<forall>u\<in>set us. \<not> ?P u"
    and P: "?P (r, s)" unfolding filter_eq_Cons_iff by blast
  note o = pool_split_order[OF sp]
  have "\<not> candidate FirstAvailableStrategy v (spot_at ls r')" if "valid_ref ls r'" "declared_before r' r" for r'
  proof -
    have "r' \<noteq> r" "\<not> declared_before r r'" using that declared_before_order by blast+
    then have "(r', spot_at ls r') \<in> set us" using o(3) that by blast
    then show ?thesis using us by auto
  qed
  then show ?thesis using o(1,2) P by auto
qed

lemma FirstAvailable_find_spot_Some:
  "FirstAvailable_find_spot v ls = Some r \<longleftrightarrow>
     valid_ref ls r \<and> candidate FirstAvailableStrategy v (spot_at ls r) \<and>
     (\<forall>r'. valid_ref ls r' \<and> declared_before r' r \<longrightarrow> \<not> candidate FirstAvailableStrategy v (spot_at ls r'))"
  (is "?L \<longleftrightarrow> ?R")
proof
  assume ?L then show ?R by (rule FirstAvailable_find_spot_Some_D)
next
  assume R: ?R
  then have "FirstAvailable_find_spot v ls \<noteq> None"
    unfolding FirstAvailable_find_spot_None by blast
  then obtain r0 where r0: "FirstAvailable_find_spot v ls = Some r0" by blast
  note d = FirstAvailable_find_spot_Some_D[OF r0]
  have "r0 = r"
  proof (rule ccontr)
    assume n: "r0 \<noteq> r"
    show False
    proof (cases "declared_before r0 r")
      case True
      then show ?thesis using R d by blast
    next
      case False
      then have "declared_before r r0" using n declared_before_order(3) by blast
      then show ?thesis using R d by blast
    qed
  qed
  then show ?L using r0 by simp
qed

lemma candidate_class:
  "vehicle_class v = vehicle_class v0 \<Longrightarrow> candidate strategy v s = candidate strategy v0 s"
  by (cases strategy)
    (simp_all add: candidate_def FirstAvailable_can_fit_def BestFit_can_fit_def Closest_can_fit_def)

lemma not_candidate_parked: "\<not> candidate strategy v0 (ParkingSpot_park_vehicle v s)"
  by (simp add: candidate_def ParkingSpot_park_vehicle_def ParkingSpot_is_available_def)

lemma candidates_after_park:
  assumes "filter (\<lambda>(r, s). candidate st v0 s) (pool_spots ls) = (r, s) # rest"
  shows "map fst (filter (\<lambda>(r, s). candidate st v0 s)
            (pool_spots (update_spot (ParkingSpot_park_vehicle v) r ls))) = map fst rest"
proof -
  let ?P = "\<lambda>(r, s). candidate st v0 s"
  let ?g = "\<lambda>(r', s'). (r', if r' = r then ParkingSpot_park_vehicle v s' else s')"
  from assms obtain us vs where sp: "pool_spots ls = us @ (r, s) # vs" and us: "\<forall>u\<in>set us. \<not> ?P u"
    and rest: "rest = filter ?P vs" unfolding filter_eq_Cons_iff by blast
  have "distinct (map fst us @ r # map fst vs)" using distinct_pool_spots[of ls] sp by simp
  then have nr: "r \<notin> fst ` set us" "r \<notin> fst ` set vs" by auto
  have gus: "map ?g us = us" by (rule map_idI) (use nr in force)
  have gvs: "map ?g vs = vs" by (rule map_idI) (use nr in force)
  have "pool_spots (update_spot (ParkingSpot_park_vehicle v) r ls) =
        us @ (r, ParkingSpot_park_vehicle v s) # vs"
    unfolding pool_spots_update sp using gus gvs by simp
  moreover have "filter ?P us = []" using us by (simp add: filter_empty_conv)
  ultimately show ?thesis using rest by (simp add: not_candidate_parked)
qed

lemma park_vehicle_FirstAvailable:
  assumes "allocation_strategy c = FirstAvailableStrategy"
  shows "allocation_strategy (snd (park_vehicle v c)) = FirstAvailableStrategy"
    "FirstAvailable_find_spot v (levels c) = None \<Longrightarrow> snd (park_vehicle v c) = c"
    "FirstAvailable_find_spot v (levels c) = Some r \<Longrightarrow>
       levels (snd (park_vehicle v c)) = update_spot (ParkingSpot_park_vehicle v) r (levels c)"
  using assms by (auto simp: park_vehicle_def split: option.splits)

lemma park_sequence_FirstAvailable:
  assumes "allocation_strategy c = FirstAvailableStrategy"
    and "\<forall>v\<in>set vs. vehicle_class v = vehicle_class v0"
  shows "park_sequence vs c =
     map (\<lambda>r. Inr (Some r))
       (take (length vs) (map fst (filter (\<lambda>(r, s). candidate FirstAvailableStrategy v0 s) (pool_spots (levels c)))))
     @ replicate (length vs - length (filter (\<lambda>(r, s). candidate FirstAvailableStrategy v0 s) (pool_spots (levels c))))
         (Inr None)"
  using assms
proof (induction vs arbitrary: c)
  case Nil
  then show ?case by simp
next
  case (Cons v vs)
  let ?P = "\<lambda>(r, s). candidate FirstAvailableStrategy v0 s"
  let ?c' = "snd (park_vehicle v c)"
  have cls: "vehicle_class v = vehicle_class v0" using Cons.prems by simp
  have Pv: "(\<lambda>(r, s). candidate FirstAvailableStrategy v s) = ?P"
    using candidate_class[OF cls] by (simp add: fun_eq_iff)
  have fs: "FirstAvailable_find_spot v (levels c) =
       (case filter ?P (pool_spots (levels c)) of [] \<Rightarrow> None | (r, s) # _ \<Rightarrow> Some r)"
    by (simp add: FirstAvailable_find_spot_def FirstAvailable_scan_filter Pv)
  have st: "allocation_strategy ?c' = FirstAvailableStrategy"
    using park_vehicle_FirstAvailable(1)[OF Cons.prems(1)] .
  have IH: "park_sequence vs ?c' =
     map (\<lambda>r. Inr (Some r)) (take (length vs) (map fst (filter ?P (pool_spots (levels ?c')))))
     @ replicate (length vs - length (filter ?P (pool_spots (levels ?c')))) (Inr None)"
    using Cons.IH[OF st] Cons.prems(2) by simp
  have hd: "park_sequence (v # vs) c = Inr (FirstAvailable_find_spot v (levels c)) # park_sequence vs ?c'"
    using Cons.prems(1) by simp
  show ?case
  proof (cases "filter ?P (pool_spots (levels c))")
    case Nil
    then have n: "FirstAvailable_find_spot v (levels c) = None" using fs by simp
    then have "?c' = c" using park_vehicle_FirstAvailable(2)[OF Cons.prems(1)] by simp
    then show ?thesis using hd IH Nil n by simp
  next
    case (Cons x rest)
    obtain r s where x: "x = (r, s)" by (cases x)
    have f: "filter ?P (pool_spots (levels c)) = (r, s) # rest" using Cons x by simp
    then have sm: "FirstAvailable_find_spot v (levels c) = Some r" using fs by simp
    then have "levels ?c' = update_spot (ParkingSpot_park_vehicle v) r (levels c)"
      using park_vehicle_FirstAvailable(3)[OF \<open>allocation_strategy c = FirstAvailableStrategy\<close>] by simp
    then have m: "map fst (filter ?P (pool_spots (levels ?c'))) = map fst rest"
      using candidates_after_park[OF f] by simp
    then have l: "length (filter ?P (pool_spots (levels ?c'))) = length rest"
      by (metis length_map)
    show ?thesis unfolding hd IH m l f sm by simp
  qed
qed


section \<open>Ranking strategies over the lot\<close>

lemma first_min_over_pool:
  assumes "\<exists>r. valid_ref ls r \<and> Q (spot_at ls r)"
  shows "\<exists>r. map_option fst (first_min_scan (\<lambda>(r, s). Q s) (\<lambda>(r, s). m s) (pool_spots ls) None) = Some r \<and> valid_ref ls r \<and>
           Q (spot_at ls r) \<and>
           (\<forall>r'. valid_ref ls r' \<and> Q (spot_at ls r') \<longrightarrow>
              m (spot_at ls r) \<le> m (spot_at ls r') \<and>
              (m (spot_at ls r') = m (spot_at ls r) \<longrightarrow>
                 r' = r \<or> declared_before r r'))"
proof -
  let ?P = "\<lambda>(r :: spot_ref, s :: parking_spot). Q s"
  let ?m = "\<lambda>(r :: spot_ref, s :: parking_spot). m s"
  from assms obtain r0 where "valid_ref ls r0" "Q (spot_at ls r0)" by blast
  then have "(r0, spot_at ls r0) \<in> set (pool_spots ls)" "?P (r0, spot_at ls r0)"
    by (simp_all add: in_pool_spots_valid)
  then have "\<exists>x\<in>set (pool_spots ls). ?P x" by (rule_tac bexI)
  from first_min_scan_None[OF this, of ?m] obtain pre x post where
    fm: "first_min_scan ?P ?m (pool_spots ls) None = Some x" and sp: "pool_spots ls = pre @ x # post"
    and Px: "?P x" and pre: "\<forall>y\<in>set pre. ?P y \<longrightarrow> ?m x < ?m y"
    and post: "\<forall>y\<in>set post. ?P y \<longrightarrow> ?m x \<le> ?m y" by blast
  obtain r s where x: "x = (r, s)" by (cases x)
  note o = pool_split_order[OF sp[unfolded x]]
  have res: "map_option fst (first_min_scan ?P ?m (pool_spots ls) None) = Some r"
    unfolding fm x by simp
  have cand: "Q (spot_at ls r)" using Px x o(2) by simp
  have "m (spot_at ls r) \<le> m (spot_at ls r') \<and>
        (m (spot_at ls r') = m (spot_at ls r) \<longrightarrow>
                 r' = r \<or> declared_before r r')"
    if v': "valid_ref ls r'" and c': "Q (spot_at ls r')" for r'
  proof -
    have c'': "?P (r', spot_at ls r')" using c' by simp
    have mx: "?m x = m (spot_at ls r)" using x o(2) by simp
    have mr: "?m (r', spot_at ls r') = m (spot_at ls r')" by simp
    show ?thesis
    proof (cases "r' = r")
      case True
      then show ?thesis by simp
    next
      case ne: False
      show ?thesis
      proof (cases "declared_before r r'")
        case True
        have i: "(r', spot_at ls r') \<in> set post" by (rule o(4)[OF v' True])
        have "?m x \<le> ?m (r', spot_at ls r')" by (rule post[rule_format, OF i c''])
        then show ?thesis unfolding mx mr using True by simp
      next
        case False
        have i: "(r', spot_at ls r') \<in> set pre" by (rule o(3)[OF v' ne False])
        have "?m x < ?m (r', spot_at ls r')" by (rule pre[rule_format, OF i c''])
        then show ?thesis unfolding mx mr using False ne by (auto simp: less_le)
      qed
    qed
  qed
  then show ?thesis using res o(1) cand by (intro exI[of _ r]) simp
qed

lemma Closest_find_spot_first_min:
  "Closest_find_spot v ls =
     map_option fst (first_min_scan (\<lambda>(r, s). candidate ClosestToEntranceStrategy v s)
        (\<lambda>(r, s). distance_to_entrance s) (pool_spots ls) None)"
  by (simp add: Closest_find_spot_def Closest_scan_first_min candidate_def)

lemma size_priority_known:
  "known_size sz \<Longrightarrow> size_priority sz = Inr (projr (size_priority sz))"
  by (simp add: known_size_def)

lemma BestFit_is_better_spot_known:
  "known_size (spot_size a) \<Longrightarrow> known_size (spot_size b) \<Longrightarrow>
     BestFit_is_better_spot a b = Inr (priority a < priority b)"
  by (cases "size_priority (spot_size a)"; cases "size_priority (spot_size b)")
    (simp_all add: BestFit_is_better_spot_def priority_def known_size_def)

lemma BestFit_scan_known:
  assumes "\<forall>(r, s)\<in>set xs. candidate BestFitStrategy v s \<longrightarrow> known_size (spot_size s)"
    and "case acc of None \<Rightarrow> True | Some (rb, b) \<Rightarrow> known_size (spot_size b)"
  shows "BestFit_scan v xs acc =
     Inr (first_min_scan (\<lambda>(r, s). candidate BestFitStrategy v s) (\<lambda>(r, s). priority s) xs acc)"
  using assms
proof (induction v xs acc rule: BestFit_scan.induct)
  case (1 v best_spot)
  then show ?case by simp
next
  case (2 v r spot rest best_spot)
  show ?case
  proof (cases "candidate BestFitStrategy v spot")
    case False
    then have nav: "\<not> (ParkingSpot_is_available spot \<and> BestFit_can_fit v spot)"
      by (simp add: candidate_def)
    have rk: "\<forall>(r, s)\<in>set rest. candidate BestFitStrategy v s \<longrightarrow> known_size (spot_size s)"
      using "2.prems"(1) by simp
    have e: "BestFit_scan v ((r, spot) # rest) best_spot = BestFit_scan v rest best_spot"
      using nav by auto
    show ?thesis unfolding e "2.IH"(3)[OF nav rk "2.prems"(2)] using False by simp
  next
    case True
    then have k: "known_size (spot_size spot)" using "2.prems"(1) by simp
    have av: "ParkingSpot_is_available spot \<and> BestFit_can_fit v spot" using True by (simp add: candidate_def)
    have rk: "\<forall>(r, s)\<in>set rest. candidate BestFitStrategy v s \<longrightarrow> known_size (spot_size s)"
      using "2.prems"(1) by simp
    show ?thesis
    proof (cases best_spot)
      case None
      then show ?thesis using "2.IH"(1)[OF av None rk] k True av by simp
    next
      case (Some p)
      obtain rb best where p: "p = (rb, best)" by (cases p)
      have kb: "known_size (spot_size best)" using "2.prems"(2) Some p by simp
      have b: "BestFit_is_better_spot spot best = Inr (priority spot < priority best)"
        by (rule BestFit_is_better_spot_known[OF k kb])
      have acc': "case (if priority spot < priority best then Some (r, spot) else best_spot) of
           None \<Rightarrow> True | Some (rb, b) \<Rightarrow> known_size (spot_size b)"
        using k kb Some p by simp
      have "BestFit_scan v rest (if priority spot < priority best then Some (r, spot) else best_spot) =
          Inr (first_min_scan (\<lambda>(r, s). candidate BestFitStrategy v s) (\<lambda>(r, s). priority s) rest
              (if priority spot < priority best then Some (r, spot) else best_spot))"
        by (rule "2.IH"(2)[OF av Some[unfolded p] refl b rk acc'])
      then show ?thesis using True av Some p b
        by (cases "priority spot < priority best") simp_all
    qed
  qed
qed


lemma BestFit_scan_result:
  "BestFit_scan v xs acc = Inr res \<Longrightarrow>
     (case res of
        None \<Rightarrow> acc = None \<and> (\<forall>(r, s)\<in>set xs. \<not> candidate BestFitStrategy v s)
      | Some x \<Rightarrow> acc = Some x \<or> (x \<in> set xs \<and> candidate BestFitStrategy v (snd x)))"
proof (induction v xs acc rule: BestFit_scan.induct)
  case (1 v best_spot)
  then show ?case by (simp split: option.splits)
next
  case (2 v r spot rest best_spot)
  show ?case
  proof (cases "candidate BestFitStrategy v spot")
    case False
    then have av: "\<not> (ParkingSpot_is_available spot \<and> BestFit_can_fit v spot)" by (simp add: candidate_def)
    have "BestFit_scan v rest best_spot = Inr res" using "2.prems" av by simp
    from "2.IH"(3)[OF av this] show ?thesis using False by (auto split: option.splits)
  next
    case True
    then have av: "ParkingSpot_is_available spot \<and> BestFit_can_fit v spot" by (simp add: candidate_def)
    show ?thesis
    proof (cases best_spot)
      case None
      have "BestFit_scan v rest (Some (r, spot)) = Inr res" using "2.prems" av None by simp
      from "2.IH"(1)[OF av None this] show ?thesis using True by (auto split: option.splits)
    next
      case (Some p)
      obtain rb best where p: "p = (rb, best)" by (cases p)
      from "2.prems" av Some p obtain better where b: "BestFit_is_better_spot spot best = Inr better"
        and sc: "BestFit_scan v rest (if better then Some (r, spot) else best_spot) = Inr res"
        by (auto split: sum.splits)
      from "2.IH"(2)[OF av Some[unfolded p] refl b sc] show ?thesis
        using True Some by (auto split: option.splits if_splits)
    qed
  qed
qed



section \<open>Example lots, evaluated\<close>

lemmas lot_building = add_parking_spot_def ParkingLotController_init_def ParkingSpot_init_def
  ParkingLevel_add_spot_def

lemma levels_usage_lot:
  "levels (usage_lot strategy) =
     [\<lparr>level_id = ''Level1'', spots =
         [ParkingSpot_init ''A1'' ''compact'' 10, ParkingSpot_init ''A2'' ''large'' 5,
          ParkingSpot_init ''A3'' ''motorcycle'' 15]\<rparr>,
      \<lparr>level_id = ''Level2'', spots =
         [ParkingSpot_init ''B1'' ''compact'' 20, ParkingSpot_init ''B2'' ''large'' 25]\<rparr>]"
  "allocation_strategy (usage_lot strategy) = strategy"
  by (simp_all add: usage_lot_def add_parking_spot_def ParkingLotController_init_def
      ParkingLevel_add_spot_def)

lemma levels_three_levels:
  "levels three_levels =
     [\<lparr>level_id = ''L1'', spots = [ParkingSpot_init ''A1'' ''compact'' 10]\<rparr>,
      \<lparr>level_id = ''L2'', spots = [ParkingSpot_init ''B1'' ''compact'' 5]\<rparr>,
      \<lparr>level_id = ''L3'', spots = [ParkingSpot_init ''C1'' ''compact'' 15]\<rparr>]"
  by (simp add: three_levels_def add_parking_spot_def ParkingLotController_init_def
      ParkingLevel_add_spot_def)

lemma levels_small_spot_lot:
  "levels small_spot_lot =
     [\<lparr>level_id = ''L1'', spots =
         [ParkingSpot_init ''A1'' ''small'' 10, ParkingSpot_init ''A2'' ''compact'' 5]\<rparr>]"
  "allocation_strategy small_spot_lot = BestFitStrategy"
  by (simp_all add: small_spot_lot_def add_parking_spot_def ParkingLotController_init_def
      ParkingLevel_add_spot_def)

lemma pool_spots_eval:
  "pool_spots [] = []"
  "pool_spots (l # ls) = level_spots 0 l @ concat (map (\<lambda>(i, level). level_spots i level) (enumerate (Suc 0) ls))"
  by (simp_all add: pool_spots_def)

lemma pool_forall:
  "(\<forall>r. valid_ref ls r \<and> Q (spot_at ls r) \<longrightarrow> K (spot_at ls r)) \<longleftrightarrow>
     (\<forall>(r, s)\<in>set (pool_spots ls). Q s \<longrightarrow> K s)"
  by (auto simp: in_pool_spots_valid)

lemma pool_exists:
  "(\<exists>r. valid_ref ls r \<and> Q (spot_at ls r)) \<longleftrightarrow> (\<exists>(r, s)\<in>set (pool_spots ls). Q s)"
  by (auto simp: in_pool_spots_valid) blast

lemma candidate_init:
  "candidate strategy v (ParkingSpot_init sid sz d) \<longleftrightarrow>
     (vehicle_class v = Motorcycle \<or> (vehicle_class v = Car \<and> (sz = ''compact'' \<or> sz = ''large'')))"
  by (cases strategy)
    (auto simp: candidate_def ParkingSpot_init_def ParkingSpot_is_available_def
      FirstAvailable_can_fit_def BestFit_can_fit_def Closest_can_fit_def)

lemma known_size_iff: "known_size sz \<longleftrightarrow> sz = ''motorcycle'' \<or> sz = ''compact'' \<or> sz = ''large''"
  by (simp add: known_size_def size_priority_def)

section \<open>Closest to the entrance\<close>

text \<open>
  C5. Whenever some free spot fits the vehicle, the closest-to-entrance strategy returns a
  free spot that fits and whose distance to the entrance is the least among all free
  fitting spots of the lot; among several spots at that least distance it returns the
  one declared first. In particular, with three levels holding one free spot each, at
  distances 10, 5 and 15, and a vehicle that fits them, it selects the spot at
  distance 5 (the only spot of the second level).
\<close>


theorem Closest_selection_rule:
  "((\<exists>r. valid_ref ls r \<and> candidate ClosestToEntranceStrategy v (spot_at ls r)) \<longrightarrow>
      (\<exists>r. find_spot ClosestToEntranceStrategy v ls = Inr (Some r) \<and> valid_ref ls r \<and>
           candidate ClosestToEntranceStrategy v (spot_at ls r) \<and>
           (\<forall>r'. valid_ref ls r' \<and> candidate ClosestToEntranceStrategy v (spot_at ls r') \<longrightarrow>
              distance_to_entrance (spot_at ls r) \<le> distance_to_entrance (spot_at ls r') \<and>
              (distance_to_entrance (spot_at ls r') = distance_to_entrance (spot_at ls r) \<longrightarrow>
                 r' = r \<or> declared_before r r')))) \<and>
   (can_fit ClosestToEntranceStrategy v (ParkingSpot_init x1 sz1 10) \<and>
    can_fit ClosestToEntranceStrategy v (ParkingSpot_init x2 sz2 5) \<and>
    can_fit ClosestToEntranceStrategy v (ParkingSpot_init x3 sz3 15) \<longrightarrow>
      find_spot ClosestToEntranceStrategy v
        [\<lparr>level_id = a, spots = [ParkingSpot_init x1 sz1 10]\<rparr>,
         \<lparr>level_id = b, spots = [ParkingSpot_init x2 sz2 5]\<rparr>,
         \<lparr>level_id = c, spots = [ParkingSpot_init x3 sz3 15]\<rparr>] = Inr (Some (1, 0)))"
proof (intro conjI impI)
  assume "\<exists>r. valid_ref ls r \<and> candidate ClosestToEntranceStrategy v (spot_at ls r)"
  from first_min_over_pool[OF this, of distance_to_entrance]
  show "\<exists>r. find_spot ClosestToEntranceStrategy v ls = Inr (Some r) \<and> valid_ref ls r \<and>
           candidate ClosestToEntranceStrategy v (spot_at ls r) \<and>
           (\<forall>r'. valid_ref ls r' \<and> candidate ClosestToEntranceStrategy v (spot_at ls r') \<longrightarrow>
              distance_to_entrance (spot_at ls r) \<le> distance_to_entrance (spot_at ls r') \<and>
              (distance_to_entrance (spot_at ls r') = distance_to_entrance (spot_at ls r) \<longrightarrow>
                 r' = r \<or> declared_before r r'))"
    by (simp add: Closest_find_spot_first_min)
next
  assume "can_fit ClosestToEntranceStrategy v (ParkingSpot_init x1 sz1 10) \<and>
    can_fit ClosestToEntranceStrategy v (ParkingSpot_init x2 sz2 5) \<and>
    can_fit ClosestToEntranceStrategy v (ParkingSpot_init x3 sz3 15)"
  then show "find_spot ClosestToEntranceStrategy v
        [\<lparr>level_id = a, spots = [ParkingSpot_init x1 sz1 10]\<rparr>,
         \<lparr>level_id = b, spots = [ParkingSpot_init x2 sz2 5]\<rparr>,
         \<lparr>level_id = c, spots = [ParkingSpot_init x3 sz3 15]\<rparr>] = Inr (Some (1, 0))"
    by (simp add: Closest_find_spot_def pool_spots_eval level_spots_def ParkingSpot_is_available_def
        ParkingSpot_init_def)
qed

theorem Closest_selection_rule_witness:
  "(\<exists>r. valid_ref (levels three_levels) r \<and>
        candidate ClosestToEntranceStrategy (car ''ABC123'') (spot_at (levels three_levels) r)) \<and>
   (\<exists>r. find_spot ClosestToEntranceStrategy (car ''ABC123'') (levels three_levels) = Inr (Some r) \<and>
        valid_ref (levels three_levels) r \<and>
        candidate ClosestToEntranceStrategy (car ''ABC123'') (spot_at (levels three_levels) r) \<and>
        (\<forall>r'. valid_ref (levels three_levels) r' \<and>
              candidate ClosestToEntranceStrategy (car ''ABC123'') (spot_at (levels three_levels) r') \<longrightarrow>
              distance_to_entrance (spot_at (levels three_levels) r)
                \<le> distance_to_entrance (spot_at (levels three_levels) r') \<and>
              (distance_to_entrance (spot_at (levels three_levels) r')
                 = distance_to_entrance (spot_at (levels three_levels) r) \<longrightarrow>
               r' = r \<or> declared_before r r'))) \<and>
   can_fit ClosestToEntranceStrategy (car ''ABC123'') (ParkingSpot_init ''A1'' ''compact'' 10) \<and>
   can_fit ClosestToEntranceStrategy (car ''ABC123'') (ParkingSpot_init ''B1'' ''compact'' 5) \<and>
   can_fit ClosestToEntranceStrategy (car ''ABC123'') (ParkingSpot_init ''C1'' ''compact'' 15) \<and>
   find_spot ClosestToEntranceStrategy (car ''ABC123'') (levels three_levels) = Inr (Some (1, 0)) \<and>
   distance_to_entrance (spot_at (levels three_levels) (1, 0)) = 5"
proof -
  have h1: "\<exists>r. valid_ref (levels three_levels) r \<and>
        candidate ClosestToEntranceStrategy (car ''ABC123'') (spot_at (levels three_levels) r)"
    by (rule exI[of _ "(0, 0)"])
      (simp add: levels_three_levels valid_ref_def spot_at_def candidate_init car_def)
  have h2: "can_fit ClosestToEntranceStrategy (car ''ABC123'') (ParkingSpot_init ''A1'' ''compact'' 10) \<and>
   can_fit ClosestToEntranceStrategy (car ''ABC123'') (ParkingSpot_init ''B1'' ''compact'' 5) \<and>
   can_fit ClosestToEntranceStrategy (car ''ABC123'') (ParkingSpot_init ''C1'' ''compact'' 15)"
    by (simp add: Closest_can_fit_def car_def ParkingSpot_init_def)
  have d: "distance_to_entrance (spot_at (levels three_levels) (1, 0)) = 5"
    by (simp add: levels_three_levels spot_at_def ParkingSpot_init_def)
  note t = Closest_selection_rule[of "levels three_levels" "car ''ABC123''" "''A1''" "''compact''"
      "''B1''" "''compact''" "''C1''" "''compact''" "''L1''" "''L2''" "''L3''"]
  from t h1 have c1: "\<exists>r. find_spot ClosestToEntranceStrategy (car ''ABC123'') (levels three_levels) = Inr (Some r) \<and>
        valid_ref (levels three_levels) r \<and>
        candidate ClosestToEntranceStrategy (car ''ABC123'') (spot_at (levels three_levels) r) \<and>
        (\<forall>r'. valid_ref (levels three_levels) r' \<and>
              candidate ClosestToEntranceStrategy (car ''ABC123'') (spot_at (levels three_levels) r') \<longrightarrow>
              distance_to_entrance (spot_at (levels three_levels) r)
                \<le> distance_to_entrance (spot_at (levels three_levels) r') \<and>
              (distance_to_entrance (spot_at (levels three_levels) r')
                 = distance_to_entrance (spot_at (levels three_levels) r) \<longrightarrow>
               r' = r \<or> declared_before r r'))"
    by (rule conjunct1[THEN mp])
  from t h2 have c2: "find_spot ClosestToEntranceStrategy (car ''ABC123'') (levels three_levels) = Inr (Some (1, 0))"
    unfolding levels_three_levels by (rule conjunct2[THEN mp])
  from h1 c1 h2 c2 d show ?thesis by (intro conjI) simp_all
qed


lemma free_compatible_sorted: "sorted_wrt declared_before (free_compatible strategy v ls)"
proof -
  have "sorted_wrt (\<lambda>a b. declared_before (fst a) (fst b)) (pool_spots ls)"
    using sorted_pool_spots[of ls] by (simp add: sorted_wrt_map)
  then have "sorted_wrt (\<lambda>a b. declared_before (fst a) (fst b))
       (filter (\<lambda>(r, s). candidate strategy v s) (pool_spots ls))"
    by (rule sorted_wrt_filter)
  then show ?thesis by (simp add: free_compatible_def sorted_wrt_map)
qed

lemma set_free_compatible:
  "set (free_compatible strategy v ls) =
     {r. valid_ref ls r \<and> candidate strategy v (spot_at ls r)}"
proof (rule set_eqI)
  fix r
  have "r \<in> set (free_compatible strategy v ls) \<longleftrightarrow>
        (\<exists>s. (r, s) \<in> set (pool_spots ls) \<and> candidate strategy v s)"
    by (force simp: free_compatible_def)
  then show "r \<in> set (free_compatible strategy v ls) \<longleftrightarrow>
        r \<in> {r. valid_ref ls r \<and> candidate strategy v (spot_at ls r)}"
    by (simp add: in_pool_spots_valid)
qed

lemma size_priority_table:
  "size_priority ''motorcycle'' = Inr 0" "size_priority ''compact'' = Inr 1"
  "size_priority ''large'' = Inr 2"
  by (simp_all add: size_priority_def)

lemma BestFit_find_spot_known:
  assumes "\<forall>r. valid_ref ls r \<and> candidate BestFitStrategy v (spot_at ls r) \<longrightarrow>
             known_size (spot_size (spot_at ls r))"
  shows "BestFit_find_spot v ls =
     Inr (map_option fst (first_min_scan (\<lambda>(r, s). candidate BestFitStrategy v s)
        (\<lambda>(r, s). priority s) (pool_spots ls) None))"
proof -
  have "\<forall>(r, s)\<in>set (pool_spots ls). candidate BestFitStrategy v s \<longrightarrow> known_size (spot_size s)"
    by (rule pool_forall[of ls "candidate BestFitStrategy v" "\<lambda>s. known_size (spot_size s)",
          THEN iffD1, OF assms])
  from BestFit_scan_known[OF this, of None] show ?thesis
    by (simp add: BestFit_find_spot_def)
qed

section \<open>Best fit\<close>

text \<open>
  The rule the best-fit loop implements, on the sizes its priority table knows
  (\<^verbatim>\<open>motorcycle\<close> 0, \<^verbatim>\<open>compact\<close> 1, \<^verbatim>\<open>large\<close> 2): when some free spot fits the
  vehicle and the free fitting spots all have such sizes, the strategy returns a free
  fitting spot whose size has the least priority value, the first declared among those.
  Outside the table the loop does not get that far, as shown below.
\<close>


theorem BestFit_selection_rule:
  assumes "\<exists>r. valid_ref ls r \<and> candidate BestFitStrategy v (spot_at ls r)"
    and "\<forall>r. valid_ref ls r \<and> candidate BestFitStrategy v (spot_at ls r) \<longrightarrow>
             known_size (spot_size (spot_at ls r))"
  shows "(\<exists>r. find_spot BestFitStrategy v ls = Inr (Some r) \<and> valid_ref ls r \<and>
            candidate BestFitStrategy v (spot_at ls r) \<and>
            (\<forall>r'. valid_ref ls r' \<and> candidate BestFitStrategy v (spot_at ls r') \<longrightarrow>
               priority (spot_at ls r) \<le> priority (spot_at ls r') \<and>
               (priority (spot_at ls r') = priority (spot_at ls r) \<longrightarrow>
                  r' = r \<or> declared_before r r'))) \<and>
         size_priority ''motorcycle'' = Inr 0 \<and> size_priority ''compact'' = Inr 1 \<and>
         size_priority ''large'' = Inr 2 \<and>
         (known_size sz \<longleftrightarrow> sz = ''motorcycle'' \<or> sz = ''compact'' \<or> sz = ''large'')"
proof -
  from first_min_over_pool[OF assms(1), of priority]
  have "\<exists>r. find_spot BestFitStrategy v ls = Inr (Some r) \<and> valid_ref ls r \<and>
            candidate BestFitStrategy v (spot_at ls r) \<and>
            (\<forall>r'. valid_ref ls r' \<and> candidate BestFitStrategy v (spot_at ls r') \<longrightarrow>
               priority (spot_at ls r) \<le> priority (spot_at ls r') \<and>
               (priority (spot_at ls r') = priority (spot_at ls r) \<longrightarrow>
                  r' = r \<or> declared_before r r'))"
    by (simp add: BestFit_find_spot_known[OF assms(2)])
  then show ?thesis using size_priority_table known_size_iff[of sz] by simp
qed

theorem BestFit_selection_rule_witness:
  "(\<exists>r. valid_ref (levels (usage_lot BestFitStrategy)) r \<and>
      candidate BestFitStrategy (motorcycle ''XYZ789'') (spot_at (levels (usage_lot BestFitStrategy)) r)) \<and>
   (\<exists>r. find_spot BestFitStrategy (motorcycle ''XYZ789'') (levels (usage_lot BestFitStrategy)) = Inr (Some r) \<and>
      valid_ref (levels (usage_lot BestFitStrategy)) r \<and>
      candidate BestFitStrategy (motorcycle ''XYZ789'') (spot_at (levels (usage_lot BestFitStrategy)) r) \<and>
      (\<forall>r'. valid_ref (levels (usage_lot BestFitStrategy)) r' \<and>
           candidate BestFitStrategy (motorcycle ''XYZ789'') (spot_at (levels (usage_lot BestFitStrategy)) r') \<longrightarrow>
           priority (spot_at (levels (usage_lot BestFitStrategy)) r)
             \<le> priority (spot_at (levels (usage_lot BestFitStrategy)) r') \<and>
           (priority (spot_at (levels (usage_lot BestFitStrategy)) r')
              = priority (spot_at (levels (usage_lot BestFitStrategy)) r) \<longrightarrow>
            r' = r \<or> declared_before r r'))) \<and>
   find_spot BestFitStrategy (motorcycle ''XYZ789'') (levels (usage_lot BestFitStrategy)) = Inr (Some (0, 2))"
proof -
  let ?ls = "levels (usage_lot BestFitStrategy)"
  let ?v = "motorcycle ''XYZ789''"
  have h1: "\<exists>r. valid_ref ?ls r \<and> candidate BestFitStrategy ?v (spot_at ?ls r)"
    by (rule exI[of _ "(0, 0)"])
      (simp add: levels_usage_lot valid_ref_def spot_at_def candidate_init motorcycle_def)
  have h2: "\<forall>r. valid_ref ?ls r \<and> candidate BestFitStrategy ?v (spot_at ?ls r) \<longrightarrow>
      known_size (spot_size (spot_at ?ls r))"
    unfolding pool_forall[of ?ls "candidate BestFitStrategy ?v" "\<lambda>s. known_size (spot_size s)"]
    by (simp add: levels_usage_lot pool_spots_eval level_spots_def known_size_iff ParkingSpot_init_def)
  have e: "find_spot BestFitStrategy ?v ?ls = Inr (Some (0, 2))"
    by (simp add: levels_usage_lot pool_spots_eval level_spots_def BestFit_find_spot_def
        ParkingSpot_init_def ParkingSpot_is_available_def BestFit_can_fit_def motorcycle_def
        BestFit_is_better_spot_def size_priority_def)
  from BestFit_selection_rule[OF h1 h2] h1 e show ?thesis by simp
qed

lemma levels_single_small_lot:
  "levels single_small_lot =
     [\<lparr>level_id = ''L1'', spots = [ParkingSpot_init ''A1'' ''small'' 10]\<rparr>]"
  by (simp add: single_small_lot_def add_parking_spot_def ParkingLotController_init_def
      ParkingLevel_add_spot_def)

text \<open>
  C4. The selection rule of the best-fit strategy is the one the claim states, but the
  code does not carry it out on every lot. \<^verbatim>\<open>_can_fit\<close> lets a motorcycle fit a spot
  of any size, while \<^verbatim>\<open>_is_better_spot\<close> subscripts a table of three sizes: with a
  free \<^verbatim>\<open>small\<close> spot and a free \<^verbatim>\<open>compact\<close> spot the comparison raises
  \<^verbatim>\<open>KeyError\<close>, \<^verbatim>\<open>park_vehicle\<close> fails with it and no spot is taken, although two
  free spots fit. On the same lot the first-available and the closest strategy return
  a spot, the best-fit strategy returns one for a car, and it returns the \<^verbatim>\<open>small\<close>
  spot itself when that is the only spot of the lot.
\<close>

theorem BestFit_unknown_size_failure:
  "candidate BestFitStrategy (motorcycle ''XYZ789'') (spot_at (levels small_spot_lot) (0, 0)) \<and>
   candidate BestFitStrategy (motorcycle ''XYZ789'') (spot_at (levels small_spot_lot) (0, 1)) \<and>
   spot_size (spot_at (levels small_spot_lot) (0, 0)) = ''small'' \<and>
   spot_size (spot_at (levels small_spot_lot) (0, 1)) = ''compact'' \<and>
   size_priority ''small'' = Inl (KeyError ''small'') \<and>
   size_priority ''compact'' = Inr 1 \<and>
   find_spot BestFitStrategy (motorcycle ''XYZ789'') (levels small_spot_lot) = Inl (KeyError ''small'') \<and>
   park_vehicle (motorcycle ''XYZ789'') small_spot_lot = (Inl (KeyError ''small''), small_spot_lot) \<and>
   find_spot FirstAvailableStrategy (motorcycle ''XYZ789'') (levels small_spot_lot) = Inr (Some (0, 0)) \<and>
   find_spot ClosestToEntranceStrategy (motorcycle ''XYZ789'') (levels small_spot_lot) = Inr (Some (0, 1)) \<and>
   find_spot BestFitStrategy (motorcycle ''XYZ789'') (levels single_small_lot) = Inr (Some (0, 0)) \<and>
   find_spot BestFitStrategy (car ''ABC123'') (levels small_spot_lot) = Inr (Some (0, 1))"
proof -
  have f: "find_spot BestFitStrategy (motorcycle ''XYZ789'') (levels small_spot_lot) = Inl (KeyError ''small'')"
    by (simp add: levels_small_spot_lot motorcycle_def pool_spots_eval level_spots_def
        BestFit_find_spot_def ParkingSpot_init_def ParkingSpot_is_available_def BestFit_can_fit_def
        BestFit_is_better_spot_def size_priority_def)
  have p: "park_vehicle (motorcycle ''XYZ789'') small_spot_lot = (Inl (KeyError ''small''), small_spot_lot)"
    using f by (simp add: park_vehicle_def levels_small_spot_lot(2))
  have rest: "candidate BestFitStrategy (motorcycle ''XYZ789'') (spot_at (levels small_spot_lot) (0, 0)) \<and>
   candidate BestFitStrategy (motorcycle ''XYZ789'') (spot_at (levels small_spot_lot) (0, 1)) \<and>
   spot_size (spot_at (levels small_spot_lot) (0, 0)) = ''small'' \<and>
   spot_size (spot_at (levels small_spot_lot) (0, 1)) = ''compact'' \<and>
   size_priority ''small'' = Inl (KeyError ''small'') \<and>
   size_priority ''compact'' = Inr 1 \<and>
   find_spot FirstAvailableStrategy (motorcycle ''XYZ789'') (levels small_spot_lot) = Inr (Some (0, 0)) \<and>
   find_spot ClosestToEntranceStrategy (motorcycle ''XYZ789'') (levels small_spot_lot) = Inr (Some (0, 1)) \<and>
   find_spot BestFitStrategy (motorcycle ''XYZ789'') (levels single_small_lot) = Inr (Some (0, 0)) \<and>
   find_spot BestFitStrategy (car ''ABC123'') (levels small_spot_lot) = Inr (Some (0, 1))"
    by (simp add: levels_small_spot_lot levels_single_small_lot spot_at_def candidate_def
        motorcycle_def car_def pool_spots_eval level_spots_def BestFit_find_spot_def
        FirstAvailable_find_spot_def Closest_find_spot_def ParkingSpot_init_def
        ParkingSpot_is_available_def BestFit_can_fit_def FirstAvailable_can_fit_def
        Closest_can_fit_def BestFit_is_better_spot_def size_priority_def)
  show ?thesis using f p rest by simp
qed


section \<open>First available, call after call\<close>

text \<open>
  C6. The first-available strategy returns the first free spot that fits the vehicle in
  declaration order (levels in the order of the lot, spots in the order of their level):
  no free fitting spot is declared before the one returned, and it returns none exactly
  when no free spot fits. Consequently consecutive calls of \<^verbatim>\<open>park_vehicle\<close> for
  vehicles of one class, on a controller with this strategy, select the free fitting
  spots of the lot one after the other in declaration order, and none once they are
  used up.
\<close>


theorem FirstAvailable_declaration_order:
  assumes "allocation_strategy c = FirstAvailableStrategy"
    and "\<forall>v\<in>set vs. vehicle_class v = vehicle_class v0"
  shows "(find_spot FirstAvailableStrategy v ls = Inr None \<longleftrightarrow>
            (\<forall>r. valid_ref ls r \<longrightarrow> \<not> candidate FirstAvailableStrategy v (spot_at ls r))) \<and>
         (find_spot FirstAvailableStrategy v ls = Inr (Some r) \<longleftrightarrow>
            valid_ref ls r \<and> candidate FirstAvailableStrategy v (spot_at ls r) \<and>
            (\<forall>r'. valid_ref ls r' \<and> declared_before r' r \<longrightarrow>
               \<not> candidate FirstAvailableStrategy v (spot_at ls r'))) \<and>
         park_sequence vs c =
           map (\<lambda>r. Inr (Some r)) (take (length vs) (free_compatible FirstAvailableStrategy v0 (levels c)))
           @ replicate (length vs - length (free_compatible FirstAvailableStrategy v0 (levels c))) (Inr None) \<and>
         sorted_wrt declared_before (free_compatible FirstAvailableStrategy v0 (levels c)) \<and>
         set (free_compatible FirstAvailableStrategy v0 (levels c)) =
           {r. valid_ref (levels c) r \<and> candidate FirstAvailableStrategy v0 (spot_at (levels c) r)}"
proof -
  have a: "find_spot FirstAvailableStrategy v ls = Inr None \<longleftrightarrow>
            (\<forall>r. valid_ref ls r \<longrightarrow> \<not> candidate FirstAvailableStrategy v (spot_at ls r))"
    using FirstAvailable_find_spot_None[of v ls] by simp
  have b: "find_spot FirstAvailableStrategy v ls = Inr (Some r) \<longleftrightarrow>
            valid_ref ls r \<and> candidate FirstAvailableStrategy v (spot_at ls r) \<and>
            (\<forall>r'. valid_ref ls r' \<and> declared_before r' r \<longrightarrow>
               \<not> candidate FirstAvailableStrategy v (spot_at ls r'))"
    using FirstAvailable_find_spot_Some[of v ls r] by simp
  have c: "park_sequence vs c =
           map (\<lambda>r. Inr (Some r)) (take (length vs) (free_compatible FirstAvailableStrategy v0 (levels c)))
           @ replicate (length vs - length (free_compatible FirstAvailableStrategy v0 (levels c))) (Inr None)"
    using park_sequence_FirstAvailable[OF assms] by (simp add: free_compatible_def)
  show ?thesis using a b c free_compatible_sorted set_free_compatible by blast
qed

theorem FirstAvailable_declaration_order_witness:
  "allocation_strategy (usage_lot FirstAvailableStrategy) = FirstAvailableStrategy \<and>
   vehicle_class (car ''DEF456'') = vehicle_class (car ''ABC123'') \<and>
   vehicle_class (car ''GHI789'') = vehicle_class (car ''ABC123'') \<and>
   park_sequence [car ''ABC123'', car ''DEF456'', car ''GHI789''] (usage_lot FirstAvailableStrategy) =
     [Inr (Some (0, 0)), Inr (Some (0, 1)), Inr (Some (1, 0))] \<and>
   find_spot FirstAvailableStrategy (car ''ABC123'') (levels (usage_lot FirstAvailableStrategy)) =
     Inr (Some (0, 0))"
proof -
  let ?c = "usage_lot FirstAvailableStrategy"
  let ?vs = "[car ''ABC123'', car ''DEF456'', car ''GHI789'']"
  have h1: "allocation_strategy ?c = FirstAvailableStrategy" by (simp add: levels_usage_lot)
  have h2: "\<forall>v\<in>set ?vs. vehicle_class v = vehicle_class (car ''ABC123'')" by (simp add: car_def)
  have f: "free_compatible FirstAvailableStrategy (car ''ABC123'') (levels ?c) =
      [(0, 0), (0, 1), (1, 0), (1, 1)]"
    by (simp add: free_compatible_def levels_usage_lot pool_spots_eval level_spots_def candidate_init car_def)
  note t = FirstAvailable_declaration_order[OF h1 h2, of "car ''ABC123''" "levels ?c" "(0, 0)"]
  have s: "park_sequence ?vs ?c = [Inr (Some (0, 0)), Inr (Some (0, 1)), Inr (Some (1, 0))]"
    using t unfolding f by simp
  have v: "valid_ref (levels ?c) (0, 0)" by (simp add: valid_ref_def levels_usage_lot)
  have cd: "candidate FirstAvailableStrategy (car ''ABC123'') (spot_at (levels ?c) (0, 0))"
    by (simp add: levels_usage_lot spot_at_def candidate_init car_def)
  have nb: "\<forall>r'. valid_ref (levels ?c) r' \<and> declared_before r' (0, 0) \<longrightarrow>
       \<not> candidate FirstAvailableStrategy (car ''ABC123'') (spot_at (levels ?c) r')"
    by (simp add: declared_before_def)
  have "find_spot FirstAvailableStrategy (car ''ABC123'') (levels ?c) = Inr (Some (0, 0))"
    using t v cd nb by blast
  then show ?thesis using h1 h2 s by simp
qed


section \<open>Provisioning a parking spot\<close>

lemma add_to_level_None:
  "add_to_level lid spot ls = None \<longleftrightarrow> lid \<notin> level_id ` set ls"
  by (induction ls) auto

lemma add_to_level_Some:
  "level_id l = lid \<Longrightarrow> lid \<notin> level_id ` set pre \<Longrightarrow>
     add_to_level lid spot (pre @ l # post) = Some (pre @ ParkingLevel_add_spot spot l # post)"
  by (induction pre) auto

lemma add_parking_spot_new:
  assumes "lid \<notin> level_id ` set (levels c)"
  shows "levels (add_parking_spot lid sid sz dist c) =
     levels c @ [\<lparr>level_id = lid, spots = [ParkingSpot_init sid sz dist]\<rparr>]"
  using assms add_to_level_None[of lid "ParkingSpot_init sid sz dist" "levels c"]
  by (simp add: add_parking_spot_def ParkingLevel_add_spot_def)

lemma add_parking_spot_existing:
  assumes "levels c = pre @ l # post" "level_id l = lid" "lid \<notin> level_id ` set pre"
  shows "levels (add_parking_spot lid sid sz dist c) =
     pre @ l\<lparr>spots := spots l @ [ParkingSpot_init sid sz dist]\<rparr> # post"
  using add_to_level_Some[OF assms(2,3), of "ParkingSpot_init sid sz dist" post] assms(1)
  by (simp add: add_parking_spot_def ParkingLevel_add_spot_def)

lemma first_level_split:
  "lid \<in> level_id ` set ls \<Longrightarrow>
     \<exists>pre l post. ls = pre @ l # post \<and> level_id l = lid \<and> lid \<notin> level_id ` set pre"
proof (induction ls)
  case Nil
  then show ?case by simp
next
  case (Cons a ls)
  show ?case
  proof (cases "level_id a = lid")
    case True
    then have "a # ls = [] @ a # ls \<and> level_id a = lid \<and> lid \<notin> level_id ` set []" by simp
    then show ?thesis by blast
  next
    case False
    then have "lid \<in> level_id ` set ls" using Cons.prems by auto
    from Cons.IH[OF this] obtain pre l post where
      p: "ls = pre @ l # post" "level_id l = lid" "lid \<notin> level_id ` set pre" by blast
    have "a # ls = (a # pre) @ l # post \<and> level_id l = lid \<and> lid \<notin> level_id ` set (a # pre)"
      using p False by auto
    then show ?thesis by blast
  qed
qed

lemma add_parking_spot_keeps:
  assumes "valid_ref (levels c) r"
  shows "valid_ref (levels (add_parking_spot lid sid sz dist c)) r \<and>
         spot_at (levels (add_parking_spot lid sid sz dist c)) r = spot_at (levels c) r"
proof (cases "lid \<in> level_id ` set (levels c)")
  case False
  show ?thesis unfolding add_parking_spot_new[OF False]
    using assms by (simp add: valid_ref_def spot_at_def nth_append)
next
  case True
  from first_level_split[OF this] obtain pre l post where
    p: "levels c = pre @ l # post" "level_id l = lid" "lid \<notin> level_id ` set pre" by blast
  show ?thesis unfolding add_parking_spot_existing[OF p]
    using assms unfolding p(1)
    by (cases r) (auto simp: valid_ref_def spot_at_def nth_append nth_Cons split: nat.splits)
qed


section \<open>Provisioning a locker\<close>

lemma update_append_key:
  "k \<notin> fst ` set d \<Longrightarrow> AList.update k v (d @ [(k, w)]) = d @ [(k, v)]"
  by (induction d) auto

lemma update_absent:
  "k \<notin> fst ` set d \<Longrightarrow> AList.update k v d = d @ [(k, v)]"
  by (induction d) auto

lemma map_of_None_iff: "map_of d k = None \<longleftrightarrow> k \<notin> fst ` set d"
  by (simp add: map_of_eq_None_iff)

lemma lockers_by_size_add_locker:
  "lockers_by_size (LockerManager_add_locker r m) =
     AList.update (locker_size (objects m ! r))
       (size_lockers (locker_size (objects m ! r)) m @ [r]) (lockers_by_size m)"
proof (cases "map_of (lockers_by_size m) (locker_size (objects m ! r))")
  case None
  then have n: "locker_size (objects m ! r) \<notin> fst ` set (lockers_by_size m)"
    by (simp add: map_of_eq_None_iff)
  show ?thesis
    using None update_append_key[OF n] update_absent[OF n]
    by (simp add: LockerManager_add_locker_def defaultdict_getitem_def size_lockers_def)
next
  case (Some lst)
  then show ?thesis
    by (simp add: LockerManager_add_locker_def defaultdict_getitem_def size_lockers_def)
qed

lemma add_locker_fields:
  "objects (LockerManager_add_locker r m) = objects m"
  "lockers_by_customer (LockerManager_add_locker r m) = lockers_by_customer m"
  by (simp_all add: LockerManager_add_locker_def Let_def split: prod.splits)

lemma provision_locker_fields:
  "objects (provision_locker lid sz m) = objects m @ [Locker_init lid sz]"
  "lockers_by_customer (provision_locker lid sz m) = lockers_by_customer m"
  "lockers_by_size (provision_locker lid sz m) =
     AList.update sz (size_lockers sz m @ [length (objects m)]) (lockers_by_size m)"
  by (simp_all add: provision_locker_def new_locker_def add_locker_fields
      lockers_by_size_add_locker Locker_init_def size_lockers_def)

lemma provision_locker_lists:
  "size_lockers sz' (provision_locker lid sz m) =
     (if sz' = sz then size_lockers sz m @ [length (objects m)] else size_lockers sz' m)"
  "map fst (lockers_by_size (provision_locker lid sz m)) =
     (if sz \<in> fst ` set (lockers_by_size m) then map fst (lockers_by_size m)
      else map fst (lockers_by_size m) @ [sz])"
  by (simp_all add: size_lockers_def provision_locker_fields update_conv' update_keys)


section \<open>Provisioning never rejects\<close>

text \<open>
  C9 (amended). Provisioning a spot creates the level when no level has the given id (a
  new level at the end of the lot, holding the spot), and otherwise appends the spot at
  the end of the first level with that id; the spot is free; the spots already there
  keep their places and contents. Provisioning a locker creates a free locker and
  appends it to the list of its size, creating the list when the size is new. Neither
  validates anything: there is no check that the unit id is new, and no failure.
\<close>

theorem add_parking_spot_appends:
  "(lid \<notin> level_id ` set (levels c) \<longrightarrow>
      levels (add_parking_spot lid sid sz dist c) =
        levels c @ [\<lparr>level_id = lid, spots = [ParkingSpot_init sid sz dist]\<rparr>]) \<and>
   (levels c = pre @ l # post \<and> level_id l = lid \<and> lid \<notin> level_id ` set pre \<longrightarrow>
      levels (add_parking_spot lid sid sz dist c) =
        pre @ l\<lparr>spots := spots l @ [ParkingSpot_init sid sz dist]\<rparr> # post) \<and>
   ParkingSpot_is_available (ParkingSpot_init sid sz dist) \<and>
   spot_id (ParkingSpot_init sid sz dist) = sid \<and>
   spot_size (ParkingSpot_init sid sz dist) = sz \<and>
   distance_to_entrance (ParkingSpot_init sid sz dist) = dist \<and>
   allocation_strategy (add_parking_spot lid sid sz dist c) = allocation_strategy c \<and>
   (valid_ref (levels c) r \<longrightarrow>
      valid_ref (levels (add_parking_spot lid sid sz dist c)) r \<and>
      spot_at (levels (add_parking_spot lid sid sz dist c)) r = spot_at (levels c) r) \<and>
   objects (provision_locker kid ksz m) = objects m @ [Locker_init kid ksz] \<and>
   Locker_is_available (Locker_init kid ksz) \<and>
   locker_id (Locker_init kid ksz) = kid \<and>
   map fst (lockers_by_size (provision_locker kid ksz m)) =
     (if ksz \<in> fst ` set (lockers_by_size m) then map fst (lockers_by_size m)
      else map fst (lockers_by_size m) @ [ksz]) \<and>
   size_lockers ksz' (provision_locker kid ksz m) =
     (if ksz' = ksz then size_lockers ksz m @ [length (objects m)] else size_lockers ksz' m) \<and>
   lockers_by_customer (provision_locker kid ksz m) = lockers_by_customer m"
proof -
  have s: "allocation_strategy (add_parking_spot lid sid sz dist c) = allocation_strategy c"
    by (simp add: add_parking_spot_def split: option.splits)
  show ?thesis
    using add_parking_spot_new[of lid c sid sz dist]
      add_parking_spot_existing[of c pre l post lid sid sz dist]
      add_parking_spot_keeps[of c r lid sid sz dist] s
      provision_locker_fields(1,2)[of kid ksz m]
      provision_locker_lists(1)[where lid = kid and sz = ksz and m = m and sz' = ksz']
      provision_locker_lists(2)[where lid = kid and sz = ksz and m = m]
    by (simp add: ParkingSpot_init_def ParkingSpot_is_available_def Locker_init_def
        Locker_is_available_def)
qed

theorem add_parking_spot_appends_witness:
  "''Level3'' \<notin> level_id ` set (levels (usage_lot FirstAvailableStrategy)) \<and>
   levels (add_parking_spot ''Level3'' ''A1'' ''compact'' 30 (usage_lot FirstAvailableStrategy)) =
     levels (usage_lot FirstAvailableStrategy) @
       [\<lparr>level_id = ''Level3'', spots = [ParkingSpot_init ''A1'' ''compact'' 30]\<rparr>] \<and>
   levels (usage_lot FirstAvailableStrategy) =
     [] @ \<lparr>level_id = ''Level1'', spots =
         [ParkingSpot_init ''A1'' ''compact'' 10, ParkingSpot_init ''A2'' ''large'' 5,
          ParkingSpot_init ''A3'' ''motorcycle'' 15]\<rparr> #
       [\<lparr>level_id = ''Level2'', spots =
         [ParkingSpot_init ''B1'' ''compact'' 20, ParkingSpot_init ''B2'' ''large'' 25]\<rparr>] \<and>
   levels (add_parking_spot ''Level1'' ''A1'' ''compact'' 30 (usage_lot FirstAvailableStrategy)) =
     [\<lparr>level_id = ''Level1'', spots =
         [ParkingSpot_init ''A1'' ''compact'' 10, ParkingSpot_init ''A2'' ''large'' 5,
          ParkingSpot_init ''A3'' ''motorcycle'' 15, ParkingSpot_init ''A1'' ''compact'' 30]\<rparr>,
      \<lparr>level_id = ''Level2'', spots =
         [ParkingSpot_init ''B1'' ''compact'' 20, ParkingSpot_init ''B2'' ''large'' 25]\<rparr>] \<and>
   valid_ref (levels (usage_lot FirstAvailableStrategy)) (0, 0) \<and>
   spot_at (levels (add_parking_spot ''Level1'' ''A1'' ''compact'' 30 (usage_lot FirstAvailableStrategy))) (0, 0)
     = spot_at (levels (usage_lot FirstAvailableStrategy)) (0, 0)"
proof -
  let ?c = "usage_lot FirstAvailableStrategy"
  let ?l1 = "\<lparr>level_id = ''Level1'', spots =
         [ParkingSpot_init ''A1'' ''compact'' 10, ParkingSpot_init ''A2'' ''large'' 5,
          ParkingSpot_init ''A3'' ''motorcycle'' 15]\<rparr>"
  let ?l2 = "\<lparr>level_id = ''Level2'', spots =
         [ParkingSpot_init ''B1'' ''compact'' 20, ParkingSpot_init ''B2'' ''large'' 25]\<rparr>"
  have h1: "''Level3'' \<notin> level_id ` set (levels ?c)" by (simp add: levels_usage_lot)
  have h2: "levels ?c = [] @ ?l1 # [?l2] \<and> level_id ?l1 = ''Level1'' \<and>
      ''Level1'' \<notin> level_id ` set []"
    by (simp add: levels_usage_lot)
  have h3: "valid_ref (levels ?c) (0, 0)" by (simp add: levels_usage_lot valid_ref_def)
  note t1 = add_parking_spot_appends[where lid = "''Level3''" and c = ?c and sid = "''A1''"
      and sz = "''compact''" and dist = 30]
  note t2 = add_parking_spot_appends[where lid = "''Level1''" and c = ?c and pre = "[]" and l = ?l1
      and post = "[?l2]" and sid = "''A1''" and sz = "''compact''" and dist = 30 and r = "(0, 0)"]
  have c1: "levels (add_parking_spot ''Level3'' ''A1'' ''compact'' 30 ?c) =
     levels ?c @ [\<lparr>level_id = ''Level3'', spots = [ParkingSpot_init ''A1'' ''compact'' 30]\<rparr>]"
    using t1 h1 by blast
  have c2: "levels (add_parking_spot ''Level1'' ''A1'' ''compact'' 30 ?c) =
     [] @ ?l1\<lparr>spots := spots ?l1 @ [ParkingSpot_init ''A1'' ''compact'' 30]\<rparr> # [?l2]"
    using t2 h2 by blast
  have c3: "spot_at (levels (add_parking_spot ''Level1'' ''A1'' ''compact'' 30 ?c)) (0, 0)
       = spot_at (levels ?c) (0, 0)"
    using t2 h3 by blast
  show ?thesis using h1 h2 h3 c1 c2 c3 by simp
qed

text \<open>
  C9 as stated fails: provisioning a second unit with an id already in use is accepted,
  and both units are in the pool afterwards.
\<close>

theorem add_parking_spot_duplicate_id_counterexample:
  "levels (add_parking_spot ''L1'' ''A1'' ''large'' 5
      (add_parking_spot ''L1'' ''A1'' ''compact'' 10 (ParkingLotController_init FirstAvailableStrategy))) =
     [\<lparr>level_id = ''L1'', spots =
        [\<lparr>spot_id = ''A1'', spot_size = ''compact'', distance_to_entrance = 10, parked = None\<rparr>,
         \<lparr>spot_id = ''A1'', spot_size = ''large'', distance_to_entrance = 5, parked = None\<rparr>]\<rparr>] \<and>
   map locker_id (objects (run [Provision ''S0'' SMALL, Provision ''S0'' SMALL] LockerManager_empty)) =
     [''S0'', ''S0''] \<and>
   lockers_by_size (run [Provision ''S0'' SMALL, Provision ''S0'' SMALL] LockerManager_empty) =
     [(SMALL, [0, 1])]"
  by (simp add: lot_building provision_locker_fields LockerManager_empty_def Locker_init_def
      size_lockers_def)


section \<open>Locker operations: what they change and what they keep\<close>

lemma size_lockers_in_pool: "set (size_lockers sz m) \<subseteq> set (pool_lockers m)"
proof (cases "map_of (lockers_by_size m) sz")
  case None
  then show ?thesis by (simp add: size_lockers_def)
next
  case (Some lst)
  then have "(sz, lst) \<in> set (lockers_by_size m)" by (rule map_of_SomeD)
  then show ?thesis using Some by (force simp: size_lockers_def pool_lockers_def)
qed

lemma map_of_Some_key: "map_of d k = Some v \<Longrightarrow> k \<in> fst ` set d"
  using map_of_None_iff[of d k] by simp

lemma find_available_locker_frame:
  "objects (snd (LockerManager_find_available_locker sz m)) = objects m"
  "lockers_by_customer (snd (LockerManager_find_available_locker sz m)) = lockers_by_customer m"
  "lockers_by_size (snd (LockerManager_find_available_locker sz m)) =
     (if sz \<in> fst ` set (lockers_by_size m) then lockers_by_size m
      else lockers_by_size m @ [(sz, [])])"
proof -
  show "objects (snd (LockerManager_find_available_locker sz m)) = objects m"
    by (simp add: LockerManager_find_available_locker_def split: prod.splits)
  show "lockers_by_customer (snd (LockerManager_find_available_locker sz m)) = lockers_by_customer m"
    by (simp add: LockerManager_find_available_locker_def split: prod.splits)
  show "lockers_by_size (snd (LockerManager_find_available_locker sz m)) =
     (if sz \<in> fst ` set (lockers_by_size m) then lockers_by_size m
      else lockers_by_size m @ [(sz, [])])"
  proof (cases "map_of (lockers_by_size m) sz")
    case None
    then show ?thesis using map_of_None_iff[of "lockers_by_size m" sz]
      by (simp add: LockerManager_find_available_locker_def defaultdict_getitem_def)
  next
    case (Some lst)
    then show ?thesis using map_of_Some_key[OF Some]
      by (simp add: LockerManager_find_available_locker_def defaultdict_getitem_def)
  qed
qed

lemma find_available_locker_result:
  "fst (LockerManager_find_available_locker sz m) =
     (case filter (\<lambda>r. Locker_is_available (objects m ! r)) (size_lockers sz m) of
        [] \<Rightarrow> None | r # _ \<Rightarrow> Some r)"
  by (simp add: LockerManager_find_available_locker_def defaultdict_getitem_def size_lockers_def
      split: option.splits prod.splits)

lemma find_available_locker_pool:
  "pool_lockers (snd (LockerManager_find_available_locker sz m)) = pool_lockers m"
  "size_lockers sz' (snd (LockerManager_find_available_locker sz m)) = size_lockers sz' m"
  "distinct (map fst (lockers_by_size (snd (LockerManager_find_available_locker sz m)))) =
     distinct (map fst (lockers_by_size m))"
proof -
  show "pool_lockers (snd (LockerManager_find_available_locker sz m)) = pool_lockers m"
    by (simp add: pool_lockers_def find_available_locker_frame)
  show "distinct (map fst (lockers_by_size (snd (LockerManager_find_available_locker sz m)))) =
     distinct (map fst (lockers_by_size m))"
    by (simp add: find_available_locker_frame)
  show "size_lockers sz' (snd (LockerManager_find_available_locker sz m)) = size_lockers sz' m"
  proof (cases "sz \<in> fst ` set (lockers_by_size m)")
    case True
    then show ?thesis by (simp add: size_lockers_def find_available_locker_frame)
  next
    case False
    then have n: "map_of (lockers_by_size m) sz = None" by (simp add: map_of_None_iff)
    show ?thesis
    proof (cases "map_of (lockers_by_size m) sz'")
      case None
      then show ?thesis using False
        by (simp add: size_lockers_def find_available_locker_frame map_add_def)
    next
      case (Some lst)
      then show ?thesis using False
        by (simp add: size_lockers_def find_available_locker_frame map_add_def)
    qed
  qed
qed

lemma find_available_locker_Some:
  assumes "fst (LockerManager_find_available_locker sz m) = Some r"
  shows "r \<in> set (size_lockers sz m)" "Locker_is_available (objects m ! r)"
proof -
  from assms obtain rest where
    "filter (\<lambda>r. Locker_is_available (objects m ! r)) (size_lockers sz m) = r # rest"
    by (auto simp: find_available_locker_result split: list.splits)
  then have "r \<in> set (filter (\<lambda>r. Locker_is_available (objects m ! r)) (size_lockers sz m))"
    by simp
  then show "r \<in> set (size_lockers sz m)" "Locker_is_available (objects m ! r)" by simp_all
qed


lemma allocate_locker_cases:
  "allocate_locker strategy p m = (None, m) \<or>
   (\<exists>sz. allocate_locker strategy p m = LockerManager_find_available_locker sz m)"
  by (cases strategy)
    (auto simp: LockerFirstAvailable_allocate_locker_def MostAvailable_allocate_locker_def
      split: option.splits)

lemma allocate_locker_frame:
  "objects (snd (allocate_locker strategy p m)) = objects m"
  "lockers_by_customer (snd (allocate_locker strategy p m)) = lockers_by_customer m"
  "pool_lockers (snd (allocate_locker strategy p m)) = pool_lockers m"
  "size_lockers sz' (snd (allocate_locker strategy p m)) = size_lockers sz' m"
  "distinct (map fst (lockers_by_size (snd (allocate_locker strategy p m)))) =
     distinct (map fst (lockers_by_size m))"
  using allocate_locker_cases[of strategy p m]
  by (auto simp: find_available_locker_frame(1,2) find_available_locker_pool)

lemma allocate_locker_Some:
  assumes "fst (allocate_locker strategy p m) = Some r"
  shows "r \<in> set (pool_lockers m)" "Locker_is_available (objects m ! r)"
proof -
  from allocate_locker_cases[of strategy p m] assms obtain sz where
    "allocate_locker strategy p m = LockerManager_find_available_locker sz m" by auto
  then have "fst (LockerManager_find_available_locker sz m) = Some r" using assms by simp
  from find_available_locker_Some[OF this] size_lockers_in_pool[of sz m]
  show "r \<in> set (pool_lockers m)" "Locker_is_available (objects m ! r)" by auto
qed

lemma receive_package_Some:
  assumes "fst (allocate_locker strategy p m) = Some r"
  shows "receive_package strategy p m =
     (locker_id (objects m ! r),
      LockerManager_store_package r p (snd (allocate_locker strategy p m)))"
  using assms allocate_locker_frame(1)[of strategy p m]
  by (cases "allocate_locker strategy p m") (simp add: receive_package_def)

lemma receive_package_None:
  assumes "fst (allocate_locker strategy p m) = None"
  shows "receive_package strategy p m = (''No available locker'', snd (allocate_locker strategy p m))"
  using assms by (cases "allocate_locker strategy p m") (simp add: receive_package_def)

lemma store_package_fields:
  "objects (LockerManager_store_package r p m) = (objects m)[r := (objects m ! r)\<lparr>stored := Some p\<rparr>]"
  "lockers_by_customer (LockerManager_store_package r p m) = (lockers_by_customer m)(customer_id p \<mapsto> r)"
  "lockers_by_size (LockerManager_store_package r p m) = lockers_by_size m"
  by (simp_all add: LockerManager_store_package_def Locker_store_package_def)

lemma retrieve_package_fields:
  "lockers_by_customer m cid = None \<Longrightarrow> retrieve_package cid m = (Message ''Package not found'', m)"
  "lockers_by_size (snd (retrieve_package cid m)) = lockers_by_size m"
  "lockers_by_customer m cid = Some r \<Longrightarrow>
     objects (snd (retrieve_package cid m)) = (objects m)[r := (objects m ! r)\<lparr>stored := None\<rparr>]"
  "lockers_by_customer m cid = Some r \<Longrightarrow>
     lockers_by_customer (snd (retrieve_package cid m)) = (lockers_by_customer m)(cid := None)"
  "lockers_by_customer m cid = Some r \<Longrightarrow>
     fst (retrieve_package cid m) =
       (case stored (objects m ! r) of Some p \<Rightarrow> Retrieved p | None \<Rightarrow> Message ''Package not found'')"
  by (simp_all add: retrieve_package_def LockerManager_retrieve_package_def
      Locker_retrieve_package_def split: option.splits)

lemma pool_lockers_same: "lockers_by_size m' = lockers_by_size m \<Longrightarrow> pool_lockers m' = pool_lockers m"
  by (simp add: pool_lockers_def)

lemma pool_lockers_provision:
  "set (pool_lockers (provision_locker lid sz m)) \<subseteq> insert (length (objects m)) (set (pool_lockers m))"
proof -
  have h: "set (concat (map snd (AList.update k v d))) \<subseteq> set v \<union> set (concat (map snd d))"
    for k :: PackageSize and v :: "nat list" and d
    by (induction d) auto
  have "set (pool_lockers (provision_locker lid sz m)) \<subseteq>
       set (size_lockers sz m @ [length (objects m)]) \<union> set (pool_lockers m)"
    unfolding pool_lockers_def provision_locker_fields(3)
    by (rule h)
  then show ?thesis using size_lockers_in_pool[of sz m] by auto
qed

lemma wf_provision: "wf_manager m \<Longrightarrow> wf_manager (provision_locker lid sz m)"
  unfolding wf_manager_def provision_locker_fields
  using pool_lockers_provision[of lid sz m]
  by (auto simp: distinct_update less_Suc_eq dest!: subsetD)

lemma wf_receive: "wf_manager m \<Longrightarrow> wf_manager (snd (receive_package strategy p m))"
proof (cases "fst (allocate_locker strategy p m)")
  case None
  assume "wf_manager m"
  then show ?thesis
    unfolding receive_package_None[OF None]
    by (simp add: wf_manager_def allocate_locker_frame)
next
  case (Some r)
  assume w: "wf_manager m"
  have "r < length (objects m)" using allocate_locker_Some(1)[OF Some] w by (simp add: wf_manager_def)
  then show ?thesis using w
    unfolding receive_package_Some[OF Some]
    by (simp add: wf_manager_def store_package_fields allocate_locker_frame
        pool_lockers_same[of "LockerManager_store_package r p (snd (allocate_locker strategy p m))"
          "snd (allocate_locker strategy p m)"])
qed

lemma wf_retrieve: "wf_manager m \<Longrightarrow> wf_manager (snd (retrieve_package cid m))"
proof (cases "lockers_by_customer m cid")
  case None
  assume "wf_manager m"
  then show ?thesis by (simp add: retrieve_package_fields(1)[OF None])
next
  case (Some r)
  assume "wf_manager m"
  then show ?thesis
    by (simp add: wf_manager_def retrieve_package_fields(3,4)[OF Some] retrieve_package_fields(2)
        pool_lockers_same[of "snd (retrieve_package cid m)" m])
qed

lemma wf_empty: "wf_manager LockerManager_empty"
  by (simp add: wf_manager_def LockerManager_empty_def pool_lockers_def)

lemma wf_apply: "wf_manager m \<Longrightarrow> wf_manager (apply_operation x m)"
  by (cases x) (simp_all add: wf_provision wf_receive wf_retrieve)

lemma wf_run: "wf_manager m \<Longrightarrow> wf_manager (run xs m)"
  by (induction xs arbitrary: m) (simp_all add: wf_apply)


section \<open>The customer index and the occupancy of lockers\<close>

lemma occupant_simps:
  "occupant (l\<lparr>stored := Some p\<rparr>) = Some (customer_id p)"
  "occupant (l\<lparr>stored := None\<rparr>) = None"
  "occupant (Locker_init lid sz) = None"
  "Locker_is_available l \<longleftrightarrow> occupant l = None"
  by (simp_all add: occupant_def Locker_init_def Locker_is_available_def)

lemma index_sound_provision:
  assumes "index_sound m" shows "index_sound (provision_locker lid sz m)"
  unfolding index_sound_def provision_locker_fields
proof (intro allI impI)
  fix cid r assume "lockers_by_customer m cid = Some r"
  then have "r < length (objects m) \<and> occupant (objects m ! r) = Some cid"
    using assms by (simp add: index_sound_def)
  then show "r < length (objects m @ [Locker_init lid sz]) \<and>
     occupant ((objects m @ [Locker_init lid sz]) ! r) = Some cid"
    by (simp add: nth_append)
qed

lemma index_sound_receive:
  assumes "wf_manager m" "index_sound m"
  shows "index_sound (snd (receive_package strategy p m))"
proof (cases "fst (allocate_locker strategy p m)")
  case None
  show ?thesis using assms(2) unfolding receive_package_None[OF None]
    by (simp add: index_sound_def allocate_locker_frame)
next
  case (Some r)
  have rl: "r < length (objects m)"
    using allocate_locker_Some(1)[OF Some] assms(1) by (simp add: wf_manager_def)
  have free: "occupant (objects m ! r) = None"
    using allocate_locker_Some(2)[OF Some] by (simp add: occupant_simps)
  have e: "snd (receive_package strategy p m) =
      LockerManager_store_package r p (snd (allocate_locker strategy p m))"
    by (simp add: receive_package_Some[OF Some])
  show ?thesis unfolding e index_sound_def
  proof (intro allI impI)
    fix cid r'
    assume a: "lockers_by_customer (LockerManager_store_package r p (snd (allocate_locker strategy p m))) cid = Some r'"
    show "r' < length (objects (LockerManager_store_package r p (snd (allocate_locker strategy p m)))) \<and>
       occupant (objects (LockerManager_store_package r p (snd (allocate_locker strategy p m))) ! r') = Some cid"
    proof (cases "cid = customer_id p")
      case True
      then have "r' = r" using a by (simp add: store_package_fields)
      then show ?thesis using rl True
        by (simp add: store_package_fields allocate_locker_frame occupant_simps)
    next
      case False
      then have i: "lockers_by_customer m cid = Some r'"
        using a by (simp add: store_package_fields allocate_locker_frame)
      then have s: "r' < length (objects m)" "occupant (objects m ! r') = Some cid"
        using assms(2) by (simp_all add: index_sound_def)
      then have "r' \<noteq> r" using free by auto
      then show ?thesis using s
        by (simp add: store_package_fields allocate_locker_frame)
    qed
  qed
qed

lemma index_sound_retrieve:
  assumes "index_sound m"
  shows "index_sound (snd (retrieve_package cid m))"
proof (cases "lockers_by_customer m cid")
  case None
  then show ?thesis using assms by (simp add: retrieve_package_fields(1))
next
  case (Some r)
  have s: "r < length (objects m)" "occupant (objects m ! r) = Some cid"
    using assms Some by (simp_all add: index_sound_def)
  show ?thesis unfolding index_sound_def
  proof (intro allI impI)
    fix cid' r'
    assume a: "lockers_by_customer (snd (retrieve_package cid m)) cid' = Some r'"
    then have ne: "cid' \<noteq> cid" and i: "lockers_by_customer m cid' = Some r'"
      by (auto simp: retrieve_package_fields(4)[OF Some] split: if_splits)
    then have s': "r' < length (objects m)" "occupant (objects m ! r') = Some cid'"
      using assms by (simp_all add: index_sound_def)
    then have "r' \<noteq> r" using s ne by auto
    then show "r' < length (objects (snd (retrieve_package cid m))) \<and>
       occupant (objects (snd (retrieve_package cid m)) ! r') = Some cid'"
      using s' by (simp add: retrieve_package_fields(3)[OF Some])
  qed
qed

lemma index_sound_empty: "index_sound LockerManager_empty"
  by (simp add: index_sound_def LockerManager_empty_def)

lemma index_sound_run:
  "wf_manager m \<Longrightarrow> index_sound m \<Longrightarrow> index_sound (run xs m)"
proof (induction xs arbitrary: m)
  case Nil
  then show ?case by simp
next
  case (Cons x xs)
  have "index_sound (apply_operation x m)"
    using Cons.prems
    by (cases x) (simp_all add: index_sound_provision index_sound_receive index_sound_retrieve)
  then show ?case using Cons.IH[OF wf_apply[OF Cons.prems(1)]] by simp
qed

lemma index_complete_provision:
  assumes "index_complete m" shows "index_complete (provision_locker lid sz m)"
  unfolding index_complete_def provision_locker_fields
proof (intro allI impI)
  fix cid r
  assume a: "r < length (objects m @ [Locker_init lid sz]) \<and>
     occupant ((objects m @ [Locker_init lid sz]) ! r) = Some cid"
  have "r < length (objects m)"
  proof (rule ccontr)
    assume "\<not> r < length (objects m)"
    then have "r = length (objects m)" using a by simp
    then show False using a by (simp add: occupant_simps)
  qed
  then show "lockers_by_customer m cid = Some r"
    using a assms by (simp add: index_complete_def nth_append)
qed

lemma index_complete_receive:
  assumes "wf_manager m" "index_complete m" "lockers_by_customer m (customer_id p) = None"
  shows "index_complete (snd (receive_package strategy p m))"
proof (cases "fst (allocate_locker strategy p m)")
  case None
  show ?thesis using assms(2) unfolding receive_package_None[OF None]
    by (simp add: index_complete_def allocate_locker_frame)
next
  case (Some r)
  have rl: "r < length (objects m)"
    using allocate_locker_Some(1)[OF Some] assms(1) by (simp add: wf_manager_def)
  have e: "snd (receive_package strategy p m) =
      LockerManager_store_package r p (snd (allocate_locker strategy p m))"
    by (simp add: receive_package_Some[OF Some])
  show ?thesis unfolding e index_complete_def
  proof (intro allI impI)
    fix cid r'
    assume a: "r' < length (objects (LockerManager_store_package r p (snd (allocate_locker strategy p m)))) \<and>
       occupant (objects (LockerManager_store_package r p (snd (allocate_locker strategy p m))) ! r') = Some cid"
    show "lockers_by_customer (LockerManager_store_package r p (snd (allocate_locker strategy p m))) cid = Some r'"
    proof (cases "r' = r")
      case True
      then have "cid = customer_id p" using a rl
        by (simp add: store_package_fields allocate_locker_frame occupant_simps)
      then show ?thesis using True by (simp add: store_package_fields)
    next
      case False
      then have o: "r' < length (objects m)" "occupant (objects m ! r') = Some cid"
        using a by (simp_all add: store_package_fields allocate_locker_frame)
      then have i: "lockers_by_customer m cid = Some r'" using assms(2) by (simp add: index_complete_def)
      then have "cid \<noteq> customer_id p" using assms(3) by auto
      then show ?thesis using i by (simp add: store_package_fields allocate_locker_frame)
    qed
  qed
qed

lemma index_complete_retrieve:
  assumes "index_complete m"
  shows "index_complete (snd (retrieve_package cid m))"
proof (cases "lockers_by_customer m cid")
  case None
  then show ?thesis using assms by (simp add: retrieve_package_fields(1))
next
  case (Some r)
  show ?thesis unfolding index_complete_def
  proof (intro allI impI)
    fix cid' r'
    assume a: "r' < length (objects (snd (retrieve_package cid m))) \<and>
       occupant (objects (snd (retrieve_package cid m)) ! r') = Some cid'"
    then have rl: "r' < length (objects m)" by (simp add: retrieve_package_fields(3)[OF Some])
    have ne: "r' \<noteq> r"
    proof
      assume "r' = r"
      then show False using a rl by (simp add: retrieve_package_fields(3)[OF Some] occupant_simps)
    qed
    then have "occupant (objects m ! r') = Some cid'"
      using a by (simp add: retrieve_package_fields(3)[OF Some])
    then have i: "lockers_by_customer m cid' = Some r'" using assms rl by (simp add: index_complete_def)
    then have "cid' \<noteq> cid" using Some ne by auto
    then show "lockers_by_customer (snd (retrieve_package cid m)) cid' = Some r'"
      using i by (simp add: retrieve_package_fields(4)[OF Some])
  qed
qed

lemma index_complete_empty: "index_complete LockerManager_empty"
  by (simp add: index_complete_def LockerManager_empty_def)

lemma index_complete_run:
  "wf_manager m \<Longrightarrow> index_complete m \<Longrightarrow> guarded xs m \<Longrightarrow> index_complete (run xs m)"
proof (induction xs arbitrary: m)
  case Nil
  then show ?case by simp
next
  case (Cons x xs)
  have "index_complete (apply_operation x m) \<and> guarded xs (apply_operation x m)"
    using Cons.prems
    by (cases x) (simp_all add: index_complete_provision index_complete_receive index_complete_retrieve)
  then show ?case using Cons.IH[OF wf_apply[OF Cons.prems(1)]] by simp
qed


lemmas locker_eval = provision_locker_def new_locker_def LockerManager_add_locker_def
  defaultdict_getitem_def receive_package_def retrieve_package_def
  LockerManager_retrieve_package_def LockerManager_store_package_def
  LockerManager_find_available_locker_def LockerFirstAvailable_allocate_locker_def
  MostAvailable_allocate_locker_def Locker_init_def Locker_is_available_def
  Locker_store_package_def Locker_retrieve_package_def LockerManager_empty_def

lemma three_lockers_eval:
  "three_lockers =
     \<lparr>objects = [\<lparr>locker_id = ''SMALL_0'', locker_size = SMALL, stored = None\<rparr>,
                 \<lparr>locker_id = ''SMALL_1'', locker_size = SMALL, stored = None\<rparr>,
                 \<lparr>locker_id = ''LARGE_0'', locker_size = LARGE, stored = None\<rparr>],
      lockers_by_size = [(SMALL, [0, 1]), (LARGE, [2])],
      lockers_by_customer = Map.empty\<rparr>"
  by (simp add: three_lockers_def locker_eval)

lemma run_append: "run (xs @ ys) m = run ys (run xs m)"
  by (induction xs arbitrary: m) simp_all

text \<open>
  C1 (amended). In every state reached from the empty manager by provisioning lockers,
  receiving packages and retrieving packages, an entry of the customer index for
  customer \<open>cid\<close> points at a locker that holds a package of \<open>cid\<close>. The converse
  holds as well (index entry and occupancy agree, for every customer and every locker)
  in the states reached by sequences in which no package is received for a customer who
  has an index entry at that moment.
\<close>

theorem owner_index_consistency:
  "(lockers_by_customer (run ops LockerManager_empty) cid = Some r \<longrightarrow>
      r < length (objects (run ops LockerManager_empty)) \<and>
      occupant (objects (run ops LockerManager_empty) ! r) = Some cid) \<and>
   (guarded ops LockerManager_empty \<and> r < length (objects (run ops LockerManager_empty)) \<longrightarrow>
      (lockers_by_customer (run ops LockerManager_empty) cid = Some r \<longleftrightarrow>
       occupant (objects (run ops LockerManager_empty) ! r) = Some cid))"
proof -
  have s: "index_sound (run ops LockerManager_empty)"
    by (rule index_sound_run[OF wf_empty index_sound_empty])
  have c: "guarded ops LockerManager_empty \<Longrightarrow> index_complete (run ops LockerManager_empty)"
    by (rule index_complete_run[OF wf_empty index_complete_empty])
  show ?thesis using s c unfolding index_sound_def index_complete_def by blast
qed


theorem owner_index_consistency_witness:
  "lockers_by_customer
     (run [Provision ''SMALL_0'' SMALL, Provision ''SMALL_1'' SMALL,
           Allocate LockerFirstAvailableStrategy (small_package ''customer_1''),
           Allocate MostAvailableStrategy (small_package ''customer_2''),
           Release ''customer_1''] LockerManager_empty) ''customer_2'' = Some 1 \<and>
   guarded [Provision ''SMALL_0'' SMALL, Provision ''SMALL_1'' SMALL,
           Allocate LockerFirstAvailableStrategy (small_package ''customer_1''),
           Allocate MostAvailableStrategy (small_package ''customer_2''),
           Release ''customer_1''] LockerManager_empty \<and>
   1 < length (objects
     (run [Provision ''SMALL_0'' SMALL, Provision ''SMALL_1'' SMALL,
           Allocate LockerFirstAvailableStrategy (small_package ''customer_1''),
           Allocate MostAvailableStrategy (small_package ''customer_2''),
           Release ''customer_1''] LockerManager_empty)) \<and>
   occupant (objects
     (run [Provision ''SMALL_0'' SMALL, Provision ''SMALL_1'' SMALL,
           Allocate LockerFirstAvailableStrategy (small_package ''customer_1''),
           Allocate MostAvailableStrategy (small_package ''customer_2''),
           Release ''customer_1''] LockerManager_empty) ! 1) = Some ''customer_2''"
proof -
  let ?ops = "[Provision ''SMALL_0'' SMALL, Provision ''SMALL_1'' SMALL,
           Allocate LockerFirstAvailableStrategy (small_package ''customer_1''),
           Allocate MostAvailableStrategy (small_package ''customer_2''),
           Release ''customer_1'']"
  have h1: "lockers_by_customer (run ?ops LockerManager_empty) ''customer_2'' = Some 1"
    by (simp add: locker_eval small_package_def)
  have h2: "guarded ?ops LockerManager_empty"
    by (simp add: locker_eval small_package_def)
  from owner_index_consistency[of ?ops "''customer_2''" 1] h1 h2 show ?thesis by blast
qed

text \<open>
  C1 as stated fails: \<^verbatim>\<open>receive_package\<close> does not look at the index, so a customer who
  receives a second package gets a second locker; the index entry is overwritten and
  the first locker keeps the customer's package without being indexed.
\<close>

theorem owner_index_counterexample:
  "occupant (objects
     (run [Provision ''SMALL_0'' SMALL, Provision ''SMALL_1'' SMALL,
           Allocate LockerFirstAvailableStrategy (small_package ''customer_1''),
           Allocate LockerFirstAvailableStrategy (small_package ''customer_1'')]
        LockerManager_empty) ! 0) = Some ''customer_1'' \<and>
   lockers_by_customer
     (run [Provision ''SMALL_0'' SMALL, Provision ''SMALL_1'' SMALL,
           Allocate LockerFirstAvailableStrategy (small_package ''customer_1''),
           Allocate LockerFirstAvailableStrategy (small_package ''customer_1'')]
        LockerManager_empty) ''customer_1'' = Some 1"
  by (simp add: locker_eval small_package_def occupant_def)


section \<open>What the parking strategies return\<close>

lemma valid_ref_update [simp]: "valid_ref (update_spot f r ls) r' = valid_ref ls r'"
  by (cases "fst r < length ls"; cases "fst r' = fst r")
    (auto simp: valid_ref_def update_spot_def)

lemma spot_at_update:
  "valid_ref ls r \<Longrightarrow>
     spot_at (update_spot f r ls) r' = (if r' = r then f (spot_at ls r) else spot_at ls r')"
  by (cases "fst r' = fst r"; cases "snd r' = snd r")
    (auto simp: valid_ref_def update_spot_def spot_at_def prod_eq_iff)

lemma no_candidates_pool:
  "(\<forall>x\<in>set (pool_spots ls). \<not> (case x of (r, s) \<Rightarrow> candidate strategy v s)) \<longleftrightarrow>
   (\<forall>r. valid_ref ls r \<longrightarrow> \<not> candidate strategy v (spot_at ls r))"
  by (auto simp: in_pool_spots_valid)

lemma Closest_find_spot_None:
  "Closest_find_spot v ls = None \<longleftrightarrow>
     (\<forall>r. valid_ref ls r \<longrightarrow> \<not> candidate ClosestToEntranceStrategy v (spot_at ls r))"
proof (cases "\<exists>r. valid_ref ls r \<and> candidate ClosestToEntranceStrategy v (spot_at ls r)")
  case True
  from first_min_over_pool[OF True, of distance_to_entrance] True show ?thesis
    by (auto simp: Closest_find_spot_first_min)
next
  case False
  then have "\<forall>x\<in>set (pool_spots ls). \<not> (case x of (r, s) \<Rightarrow> candidate ClosestToEntranceStrategy v s)"
    unfolding no_candidates_pool by blast
  from first_min_scan_None_empty[OF this] False show ?thesis
    by (simp add: Closest_find_spot_first_min)
qed

lemma Closest_find_spot_sound:
  assumes "Closest_find_spot v ls = Some r"
  shows "valid_ref ls r \<and> candidate ClosestToEntranceStrategy v (spot_at ls r)"
proof -
  have "\<exists>r. valid_ref ls r \<and> candidate ClosestToEntranceStrategy v (spot_at ls r)"
    using assms Closest_find_spot_None[of v ls] by auto
  from first_min_over_pool[OF this, of distance_to_entrance] assms show ?thesis
    by (auto simp: Closest_find_spot_first_min)
qed


lemma BestFit_find_spot_sound:
  assumes "BestFit_find_spot v ls = Inr (Some r)"
  shows "valid_ref ls r \<and> candidate BestFitStrategy v (spot_at ls r)"
proof -
  from assms obtain s where "BestFit_scan v (pool_spots ls) None = Inr (Some (r, s))"
    by (auto simp: BestFit_find_spot_def split: sum.splits)
  from BestFit_scan_result[OF this]
  have "(r, s) \<in> set (pool_spots ls) \<and> candidate BestFitStrategy v s" by simp
  then show ?thesis by (auto simp: in_pool_spots_valid)
qed

lemma find_spot_sound:
  "find_spot strategy v ls = Inr (Some r) \<Longrightarrow>
     valid_ref ls r \<and> candidate strategy v (spot_at ls r)"
  by (cases strategy)
    (simp_all add: FirstAvailable_find_spot_Some BestFit_find_spot_sound Closest_find_spot_sound)





lemma find_spot_parks:
  assumes "find_spot (allocation_strategy c) v (levels c) = Inr (Some s)"
  shows "park_vehicle v c =
           (Inr (''Vehicle '' @ license_plate v @ '' parked in spot '' @ spot_id (spot_at (levels c) s)),
            c\<lparr>levels := update_spot (ParkingSpot_park_vehicle v) s (levels c)\<rparr>)"
  using assms by (simp add: park_vehicle_def)

section \<open>Allocating and releasing again\<close>

lemma stored_None_id: "stored l = None \<Longrightarrow> l\<lparr>stored := None\<rparr> = l"
  by (cases l) simp

lemma parked_None_id: "parked s = None \<Longrightarrow> s\<lparr>parked := None\<rparr> = s"
  by (cases s) simp

lemma locker_round_trip:
  assumes "wf_manager m" and "fst (allocate_locker strategy p m) = Some r"
  shows "fst (receive_package strategy p m) = locker_id (objects m ! r)"
    "occupant (objects (snd (receive_package strategy p m)) ! r) = Some (customer_id p)"
    "lockers_by_customer (snd (receive_package strategy p m)) (customer_id p) = Some r"
    "fst (retrieve_package (customer_id p) (snd (receive_package strategy p m))) = Retrieved p"
    "objects (snd (retrieve_package (customer_id p) (snd (receive_package strategy p m)))) = objects m"
    "lockers_by_customer (snd (retrieve_package (customer_id p) (snd (receive_package strategy p m))))
       = (lockers_by_customer m)(customer_id p := None)"
    "pool_lockers (snd (retrieve_package (customer_id p) (snd (receive_package strategy p m))))
       = pool_lockers m"
proof -
  let ?ma = "snd (allocate_locker strategy p m)"
  let ?m1 = "snd (receive_package strategy p m)"
  let ?m2 = "snd (retrieve_package (customer_id p) ?m1)"
  have rl: "r < length (objects m)"
    using allocate_locker_Some(1)[OF assms(2)] assms(1) by (simp add: wf_manager_def)
  have free: "stored (objects m ! r) = None"
    using allocate_locker_Some(2)[OF assms(2)] by (simp add: Locker_is_available_def)
  have e: "?m1 = LockerManager_store_package r p ?ma"
    by (simp add: receive_package_Some[OF assms(2)])
  show "fst (receive_package strategy p m) = locker_id (objects m ! r)"
    by (simp add: receive_package_Some[OF assms(2)])
  have o1: "objects ?m1 = (objects m)[r := (objects m ! r)\<lparr>stored := Some p\<rparr>]"
    unfolding e by (simp add: store_package_fields allocate_locker_frame)
  have i1: "lockers_by_customer ?m1 = (lockers_by_customer m)(customer_id p \<mapsto> r)"
    unfolding e by (simp add: store_package_fields allocate_locker_frame)
  have s1: "lockers_by_size ?m1 = lockers_by_size ?ma"
    unfolding e by (simp add: store_package_fields)
  show "occupant (objects ?m1 ! r) = Some (customer_id p)"
    using rl by (simp add: o1 occupant_simps)
  show i1r: "lockers_by_customer ?m1 (customer_id p) = Some r" by (simp add: i1)
  show "fst (retrieve_package (customer_id p) ?m1) = Retrieved p"
    using rl by (simp add: retrieve_package_fields(5)[OF i1r] o1)
  show "objects ?m2 = objects m"
    using rl free by (simp add: retrieve_package_fields(3)[OF i1r] o1 stored_None_id)
  show "lockers_by_customer ?m2 = (lockers_by_customer m)(customer_id p := None)"
    by (simp add: retrieve_package_fields(4)[OF i1r] i1)
  have "lockers_by_size ?m2 = lockers_by_size ?ma"
    by (simp add: retrieve_package_fields(2) s1)
  then have "pool_lockers ?m2 = pool_lockers ?ma" by (rule pool_lockers_same)
  then show "pool_lockers ?m2 = pool_lockers m" by (simp add: allocate_locker_frame)
qed

lemma unpark_scan_first:
  assumes "spot_id s = sid" "\<not> ParkingSpot_is_available s"
    and "\<forall>(r', s')\<in>set pre. \<not> (spot_id s' = sid \<and> \<not> ParkingSpot_is_available s')"
  shows "unpark_scan sid (pre @ (r, s) # post) = Some (r, s)"
  using assms by (induction pre) auto

lemma update_spot_twice:
  "valid_ref ls r \<Longrightarrow> update_spot f r (update_spot g r ls) = update_spot (\<lambda>s. f (g s)) r ls"
  by (simp add: update_spot_def valid_ref_def)

lemma update_spot_id:
  "f (spot_at ls r) = spot_at ls r \<Longrightarrow> update_spot f r ls = ls"
  by (simp add: update_spot_def spot_at_def)

lemma parking_round_trip:
  assumes f: "find_spot (allocation_strategy c) v (levels c) = Inr (Some r)"
    and u: "\<forall>r'. valid_ref (levels c) r' \<and> declared_before r' r \<and>
               spot_id (spot_at (levels c) r') = spot_id (spot_at (levels c) r) \<longrightarrow>
               ParkingSpot_is_available (spot_at (levels c) r')"
  shows "park_vehicle v c =
           (Inr (''Vehicle '' @ license_plate v @ '' parked in spot '' @ spot_id (spot_at (levels c) r)),
            c\<lparr>levels := update_spot (ParkingSpot_park_vehicle v) r (levels c)\<rparr>)"
    "unpark_vehicle (spot_id (spot_at (levels c) r)) (snd (park_vehicle v c)) =
           (Inr (''Vehicle '' @ license_plate v @ '' removed from spot '' @ spot_id (spot_at (levels c) r)), c)"
proof -
  let ?ls = "levels c"
  let ?s = "spot_at ?ls r"
  let ?sid = "spot_id ?s"
  let ?g = "\<lambda>(r', s'). (r', if r' = r then ParkingSpot_park_vehicle v s' else s')"
  note sound = find_spot_sound[OF f]
  then have vr: "valid_ref ?ls r" and av: "parked ?s = None"
    by (simp_all add: candidate_def ParkingSpot_is_available_def)
  show p: "park_vehicle v c =
           (Inr (''Vehicle '' @ license_plate v @ '' parked in spot '' @ spot_id (spot_at (levels c) r)),
            c\<lparr>levels := update_spot (ParkingSpot_park_vehicle v) r (levels c)\<rparr>)"
    using f by (simp add: park_vehicle_def)
  have "(r, ?s) \<in> set (pool_spots ?ls)" using vr by (simp add: in_pool_spots_valid)
  then obtain pre post where sp: "pool_spots ?ls = pre @ (r, ?s) # post"
    by (auto dest: split_list)
  note o = pool_split_order[OF sp]
  have "distinct (map fst pre @ r # map fst post)" using distinct_pool_spots[of ?ls] sp by simp
  then have nr: "r \<notin> fst ` set pre" "r \<notin> fst ` set post" by auto
  have gpre: "map ?g pre = pre" by (rule map_idI) (use nr in force)
  have gpost: "map ?g post = post" by (rule map_idI) (use nr in force)
  have sp': "pool_spots (update_spot (ParkingSpot_park_vehicle v) r ?ls) =
        pre @ (r, ParkingSpot_park_vehicle v ?s) # post"
    unfolding pool_spots_update sp using gpre gpost by simp
  have pre_ok: "\<forall>(r', s')\<in>set pre. \<not> (spot_id s' = ?sid \<and> \<not> ParkingSpot_is_available s')"
  proof (intro ballI, clarify)
    fix r' s' assume i: "(r', s') \<in> set pre" and id: "spot_id s' = ?sid"
      and na: "\<not> ParkingSpot_is_available s'"
    have "(r', s') \<in> set (pool_spots ?ls)" using i sp by simp
    then have v': "valid_ref ?ls r'" and s': "s' = spot_at ?ls r'" by (simp_all add: in_pool_spots_valid)
    have "declared_before r' r" using o(5)[OF i] .
    then have "ParkingSpot_is_available (spot_at ?ls r')" using u v' id s' by blast
    then show False using na s' by simp
  qed
  have sc: "unpark_scan ?sid (pool_spots (update_spot (ParkingSpot_park_vehicle v) r ?ls)) =
      Some (r, ParkingSpot_park_vehicle v ?s)"
    unfolding sp'
    by (rule unpark_scan_first[OF _ _ pre_ok])
      (simp_all add: ParkingSpot_park_vehicle_def ParkingSpot_is_available_def)
  have restored: "update_spot (\<lambda>s. snd (ParkingSpot_remove_vehicle s)) r
        (update_spot (ParkingSpot_park_vehicle v) r ?ls) = ?ls"
    unfolding update_spot_twice[OF vr]
    by (rule update_spot_id)
      (simp add: ParkingSpot_remove_vehicle_def ParkingSpot_park_vehicle_def av parked_None_id)
  have rv: "fst (ParkingSpot_remove_vehicle (ParkingSpot_park_vehicle v ?s)) = Some v"
    by (simp add: ParkingSpot_remove_vehicle_def ParkingSpot_park_vehicle_def)
  show "unpark_vehicle ?sid (snd (park_vehicle v c)) =
           (Inr (''Vehicle '' @ license_plate v @ '' removed from spot '' @ ?sid), c)"
    unfolding p
    by (simp add: unpark_vehicle_def sc restored rv)
qed


lemma free_lockers_same:
  "objects m' = objects m \<Longrightarrow> pool_lockers m' = pool_lockers m \<Longrightarrow> free_lockers m' = free_lockers m"
  by (simp add: free_lockers_def)

text \<open>
  C8 (amended). In every well-formed manager state (every state reached by running operations from
  the empty manager is one, see \<open>wf_run\<close>), when the strategy selects locker \<open>r\<close> for a
  package, receiving the package occupies \<open>r\<close> for the package's customer and indexes
  it; retrieving for that customer then returns the package, frees \<open>r\<close> and removes
  the index entry, and the lockers, the pool and the list of free lockers are what they
  were before the package was received. For the parking lot, which releases by spot id:
  parking a vehicle in the selected spot and then unparking that spot's id restores the
  controller exactly, provided no occupied spot declared earlier carries the same id.
\<close>


theorem allocate_release_round_trip:
  "(wf_manager m \<and> fst (allocate_locker strategy p m) = Some r \<longrightarrow>
      fst (receive_package strategy p m) = locker_id (objects m ! r) \<and>
      occupant (objects (snd (receive_package strategy p m)) ! r) = Some (customer_id p) \<and>
      lockers_by_customer (snd (receive_package strategy p m)) (customer_id p) = Some r \<and>
      fst (retrieve_package (customer_id p) (snd (receive_package strategy p m))) = Retrieved p \<and>
      Locker_is_available
        (objects (snd (retrieve_package (customer_id p) (snd (receive_package strategy p m)))) ! r) \<and>
      lockers_by_customer
        (snd (retrieve_package (customer_id p) (snd (receive_package strategy p m)))) (customer_id p) = None \<and>
      objects (snd (retrieve_package (customer_id p) (snd (receive_package strategy p m)))) = objects m \<and>
      pool_lockers (snd (retrieve_package (customer_id p) (snd (receive_package strategy p m))))
        = pool_lockers m \<and>
      free_lockers (snd (retrieve_package (customer_id p) (snd (receive_package strategy p m))))
        = free_lockers m) \<and>
   (find_spot (allocation_strategy c) v (levels c) = Inr (Some s) \<and>
    (\<forall>s'. valid_ref (levels c) s' \<and> declared_before s' s \<and>
          spot_id (spot_at (levels c) s') = spot_id (spot_at (levels c) s) \<longrightarrow>
          ParkingSpot_is_available (spot_at (levels c) s')) \<longrightarrow>
      parked (spot_at (levels (snd (park_vehicle v c))) s) = Some v \<and>
      unpark_vehicle (spot_id (spot_at (levels c) s)) (snd (park_vehicle v c)) =
        (Inr (''Vehicle '' @ license_plate v @ '' removed from spot '' @ spot_id (spot_at (levels c) s)), c))"
proof (intro conjI impI)
  assume a: "wf_manager m \<and> fst (allocate_locker strategy p m) = Some r"
  then have w: "wf_manager m" and al: "fst (allocate_locker strategy p m) = Some r" by simp_all
  note rt = locker_round_trip[OF w al]
  let ?m2 = "snd (retrieve_package (customer_id p) (snd (receive_package strategy p m)))"
  show "fst (receive_package strategy p m) = locker_id (objects m ! r)" by (rule rt(1))
  show "occupant (objects (snd (receive_package strategy p m)) ! r) = Some (customer_id p)" by (rule rt(2))
  show "lockers_by_customer (snd (receive_package strategy p m)) (customer_id p) = Some r" by (rule rt(3))
  show "fst (retrieve_package (customer_id p) (snd (receive_package strategy p m))) = Retrieved p"
    by (rule rt(4))
  show "Locker_is_available (objects ?m2 ! r)"
    unfolding rt(5) by (rule allocate_locker_Some(2)[OF al])
  show "lockers_by_customer ?m2 (customer_id p) = None" by (simp add: rt(6))
  show "objects ?m2 = objects m" by (rule rt(5))
  show "pool_lockers ?m2 = pool_lockers m" by (rule rt(7))
  show "free_lockers ?m2 = free_lockers m" by (rule free_lockers_same[OF rt(5) rt(7)])
next
  assume a: "find_spot (allocation_strategy c) v (levels c) = Inr (Some s) \<and>
    (\<forall>s'. valid_ref (levels c) s' \<and> declared_before s' s \<and>
          spot_id (spot_at (levels c) s') = spot_id (spot_at (levels c) s) \<longrightarrow>
          ParkingSpot_is_available (spot_at (levels c) s'))"
  then have f: "find_spot (allocation_strategy c) v (levels c) = Inr (Some s)" by simp
  from a have u: "\<forall>s'. valid_ref (levels c) s' \<and> declared_before s' s \<and>
          spot_id (spot_at (levels c) s') = spot_id (spot_at (levels c) s) \<longrightarrow>
          ParkingSpot_is_available (spot_at (levels c) s')" by simp
  note rt = parking_round_trip[OF f u]
  have vr: "valid_ref (levels c) s" using find_spot_sound[OF f] by simp
  show "parked (spot_at (levels (snd (park_vehicle v c))) s) = Some v"
    unfolding rt(1) using vr by (simp add: spot_at_update ParkingSpot_park_vehicle_def)
  show "unpark_vehicle (spot_id (spot_at (levels c) s)) (snd (park_vehicle v c)) =
        (Inr (''Vehicle '' @ license_plate v @ '' removed from spot '' @ spot_id (spot_at (levels c) s)), c)"
    by (rule rt(2))
qed

theorem allocate_release_round_trip_witness:
  "wf_manager three_lockers \<and>
   fst (allocate_locker MostAvailableStrategy (large_package ''customer_1'') three_lockers) = Some 0 \<and>
   fst (receive_package MostAvailableStrategy (large_package ''customer_1'') three_lockers) = ''SMALL_0'' \<and>
   free_lockers (snd (receive_package MostAvailableStrategy (large_package ''customer_1'') three_lockers))
     = [1, 2] \<and>
   free_lockers (snd (retrieve_package ''customer_1''
      (snd (receive_package MostAvailableStrategy (large_package ''customer_1'') three_lockers))))
     = free_lockers three_lockers \<and>
   free_lockers three_lockers = [0, 1, 2] \<and>
   parked (spot_at (levels (snd (park_vehicle (car ''ABC123'') (usage_lot FirstAvailableStrategy)))) (0, 0))
     = Some (car ''ABC123'') \<and>
   declared_before (0, 0) (0, 1) \<and>
   find_spot (allocation_strategy (snd (park_vehicle (car ''ABC123'') (usage_lot FirstAvailableStrategy))))
     (car ''DEF456'') (levels (snd (park_vehicle (car ''ABC123'') (usage_lot FirstAvailableStrategy))))
     = Inr (Some (0, 1)) \<and>
   unpark_vehicle ''A2''
     (snd (park_vehicle (car ''DEF456'')
        (snd (park_vehicle (car ''ABC123'') (usage_lot FirstAvailableStrategy))))) =
     (Inr ''Vehicle DEF456 removed from spot A2'',
      snd (park_vehicle (car ''ABC123'') (usage_lot FirstAvailableStrategy)))"
proof -
  let ?p = "large_package ''customer_1''"
  let ?x = "car ''ABC123''" let ?y = "car ''DEF456''"
  let ?c = "snd (park_vehicle ?x (usage_lot FirstAvailableStrategy))"
  have h1: "wf_manager three_lockers"
    unfolding three_lockers_def by (rule wf_run[OF wf_empty])
  have h2: "fst (allocate_locker MostAvailableStrategy ?p three_lockers) = Some 0"
    by (simp add: three_lockers_eval locker_eval large_package_def)
  have cid: "customer_id ?p = ''customer_1''" by (simp add: large_package_def)
  have f0: "find_spot (allocation_strategy (usage_lot FirstAvailableStrategy)) ?x
       (levels (usage_lot FirstAvailableStrategy)) = Inr (Some (0, 0))"
    by (simp add: levels_usage_lot pool_spots_eval level_spots_def FirstAvailable_find_spot_def
        ParkingSpot_init_def ParkingSpot_is_available_def FirstAvailable_can_fit_def car_def)
  have c: "levels ?c =
     [\<lparr>level_id = ''Level1'', spots =
         [(ParkingSpot_init ''A1'' ''compact'' 10)\<lparr>parked := Some ?x\<rparr>,
          ParkingSpot_init ''A2'' ''large'' 5, ParkingSpot_init ''A3'' ''motorcycle'' 15]\<rparr>,
      \<lparr>level_id = ''Level2'', spots =
         [ParkingSpot_init ''B1'' ''compact'' 20, ParkingSpot_init ''B2'' ''large'' 25]\<rparr>]"
    "allocation_strategy ?c = FirstAvailableStrategy"
    by (simp_all add: find_spot_parks[OF f0] levels_usage_lot update_spot_def
        ParkingSpot_park_vehicle_def)
  have h3: "find_spot (allocation_strategy ?c) ?y (levels ?c) = Inr (Some (0, 1))"
    unfolding c
    by (simp add: pool_spots_eval level_spots_def FirstAvailable_find_spot_def
        ParkingSpot_init_def ParkingSpot_is_available_def FirstAvailable_can_fit_def car_def)
  have ids: "spot_id (spot_at (levels ?c) (0, 0)) = ''A1''" "spot_id (spot_at (levels ?c) (0, 1)) = ''A2''"
    "parked (spot_at (levels ?c) (0, 0)) = Some ?x"
    unfolding c by (simp_all add: spot_at_def ParkingSpot_init_def)
  have h4: "\<forall>s'. valid_ref (levels ?c) s' \<and> declared_before s' (0, 1) \<and>
          spot_id (spot_at (levels ?c) s') = spot_id (spot_at (levels ?c) (0, 1)) \<longrightarrow>
          ParkingSpot_is_available (spot_at (levels ?c) s')"
  proof (intro allI impI)
    fix s' :: spot_ref
    assume a: "valid_ref (levels ?c) s' \<and> declared_before s' (0, 1) \<and>
          spot_id (spot_at (levels ?c) s') = spot_id (spot_at (levels ?c) (0, 1))"
    then have "s' = (0, 0)" by (auto simp: declared_before_def prod_eq_iff)
    then show "ParkingSpot_is_available (spot_at (levels ?c) s')" using a ids by simp
  qed
  have db: "declared_before (0, 0) (0, 1)" by (simp add: declared_before_def)
  note t = allocate_release_round_trip[of three_lockers MostAvailableStrategy ?p 0 ?c ?y "(0, 1)"]
  have e1: "fst (receive_package MostAvailableStrategy ?p three_lockers) = ''SMALL_0''"
    using t h1 h2 by (simp add: three_lockers_eval)
  have e2: "free_lockers (snd (retrieve_package ''customer_1''
      (snd (receive_package MostAvailableStrategy ?p three_lockers)))) = free_lockers three_lockers"
    using t h1 h2 cid by simp
  have e3': "unpark_vehicle (spot_id (spot_at (levels ?c) (0, 1))) (snd (park_vehicle ?y ?c)) =
        (Inr (''Vehicle '' @ license_plate ?y @ '' removed from spot '' @ spot_id (spot_at (levels ?c) (0, 1))), ?c)"
    using t h3 h4 by blast
  have e3: "unpark_vehicle ''A2'' (snd (park_vehicle ?y ?c)) =
     (Inr ''Vehicle DEF456 removed from spot A2'', ?c)"
    using e3' unfolding ids by (simp add: car_def)
  have e4: "free_lockers three_lockers = [0, 1, 2]"
    by (simp add: three_lockers_eval free_lockers_def pool_lockers_def Locker_is_available_def)
  have e5: "free_lockers (snd (receive_package MostAvailableStrategy ?p three_lockers)) = [1, 2]"
    by (simp add: three_lockers_eval locker_eval large_package_def free_lockers_def pool_lockers_def)
  show ?thesis using h1 h2 h3 e1 e2 e3 e4 e5 ids(3) db by (intro conjI)
qed


lemma levels_same_id_lot:
  "levels same_id_lot =
     [\<lparr>level_id = ''L1'', spots =
        [ParkingSpot_init ''A1'' ''compact'' 10, ParkingSpot_init ''A1'' ''large'' 5]\<rparr>]"
  "allocation_strategy same_id_lot = FirstAvailableStrategy"
  by (simp_all add: same_id_lot_def add_parking_spot_def ParkingLotController_init_def
      ParkingLevel_add_spot_def)

text \<open>
  C8 as stated fails for the parking lot: \<^verbatim>\<open>unpark_vehicle\<close> releases by spot id, and
  \<^verbatim>\<open>add_parking_spot\<close> accepts a second spot with an id in use. With two spots named
  \<^verbatim>\<open>A1\<close>, the first occupied, parking a vehicle takes the second; unparking
  \<^verbatim>\<open>A1\<close> then frees the first spot and removes the other vehicle, and the spot just
  taken stays occupied.
\<close>

theorem unpark_same_id_counterexample:
  "find_spot (allocation_strategy (snd (park_vehicle (car ''ABC123'') same_id_lot))) (car ''DEF456'')
     (levels (snd (park_vehicle (car ''ABC123'') same_id_lot))) = Inr (Some (0, 1)) \<and>
   spot_id (spot_at (levels (snd (park_vehicle (car ''ABC123'') same_id_lot))) (0, 1)) = ''A1'' \<and>
   parked (spot_at (levels (snd (park_vehicle (car ''ABC123'') same_id_lot))) (0, 0))
     = Some (car ''ABC123'') \<and>
   parked (spot_at (levels (snd (park_vehicle (car ''ABC123'') same_id_lot))) (0, 1)) = None \<and>
   fst (unpark_vehicle ''A1''
          (snd (park_vehicle (car ''DEF456'') (snd (park_vehicle (car ''ABC123'') same_id_lot)))))
     = Inr ''Vehicle ABC123 removed from spot A1'' \<and>
   parked (spot_at (levels (snd (unpark_vehicle ''A1''
          (snd (park_vehicle (car ''DEF456'') (snd (park_vehicle (car ''ABC123'') same_id_lot))))))) (0, 1))
     = Some (car ''DEF456'') \<and>
   parked (spot_at (levels (snd (unpark_vehicle ''A1''
          (snd (park_vehicle (car ''DEF456'') (snd (park_vehicle (car ''ABC123'') same_id_lot))))))) (0, 0))
     = None"
proof -
  let ?x = "car ''ABC123''" let ?y = "car ''DEF456''"
  let ?c0 = "snd (park_vehicle ?x same_id_lot)"
  let ?c1 = "snd (park_vehicle ?y ?c0)"
  have f0: "find_spot (allocation_strategy same_id_lot) ?x (levels same_id_lot) = Inr (Some (0, 0))"
    unfolding levels_same_id_lot
    by (simp add: pool_spots_eval level_spots_def FirstAvailable_find_spot_def
        ParkingSpot_init_def ParkingSpot_is_available_def FirstAvailable_can_fit_def car_def)
  have c0: "levels ?c0 =
     [\<lparr>level_id = ''L1'', spots =
        [(ParkingSpot_init ''A1'' ''compact'' 10)\<lparr>parked := Some ?x\<rparr>,
         ParkingSpot_init ''A1'' ''large'' 5]\<rparr>]"
    "allocation_strategy ?c0 = FirstAvailableStrategy"
    by (simp_all add: find_spot_parks[OF f0] levels_same_id_lot update_spot_def
        ParkingSpot_park_vehicle_def)
  have f1: "find_spot (allocation_strategy ?c0) ?y (levels ?c0) = Inr (Some (0, 1))"
    unfolding c0
    by (simp add: pool_spots_eval level_spots_def FirstAvailable_find_spot_def
        ParkingSpot_init_def ParkingSpot_is_available_def FirstAvailable_can_fit_def car_def)
  have c1: "levels ?c1 =
     [\<lparr>level_id = ''L1'', spots =
        [(ParkingSpot_init ''A1'' ''compact'' 10)\<lparr>parked := Some ?x\<rparr>,
         (ParkingSpot_init ''A1'' ''large'' 5)\<lparr>parked := Some ?y\<rparr>]\<rparr>]"
    unfolding find_spot_parks[OF f1] using c0(1)
    by (simp add: update_spot_def ParkingSpot_park_vehicle_def)
  have u: "unpark_vehicle ''A1'' ?c1 =
      (Inr (''Vehicle '' @ license_plate ?x @ '' removed from spot A1''),
       ?c1\<lparr>levels := [\<lparr>level_id = ''L1'', spots =
        [ParkingSpot_init ''A1'' ''compact'' 10,
         (ParkingSpot_init ''A1'' ''large'' 5)\<lparr>parked := Some ?y\<rparr>]\<rparr>]\<rparr>)"
    unfolding unpark_vehicle_def c1
    by (simp add: pool_spots_eval level_spots_def ParkingSpot_init_def ParkingSpot_is_available_def
        ParkingSpot_remove_vehicle_def update_spot_def)
  have a: "spot_id (spot_at (levels ?c0) (0, 1)) = ''A1''"
    "parked (spot_at (levels ?c0) (0, 0)) = Some ?x"
    "parked (spot_at (levels ?c0) (0, 1)) = None"
    unfolding c0 by (simp_all add: spot_at_def ParkingSpot_init_def)
  have b: "fst (unpark_vehicle ''A1'' ?c1) = Inr ''Vehicle ABC123 removed from spot A1''"
    unfolding u by (simp add: car_def)
  have c: "parked (spot_at (levels (snd (unpark_vehicle ''A1'' ?c1))) (0, 1)) = Some ?y"
    "parked (spot_at (levels (snd (unpark_vehicle ''A1'' ?c1))) (0, 0)) = None"
    unfolding u by (simp_all add: spot_at_def ParkingSpot_init_def)
  show ?thesis using f1 a b c by (intro conjI)
qed


lemma allocate_locker_index_independent:
  "fst (allocate_locker strategy p (m\<lparr>lockers_by_customer := idx\<rparr>)) = fst (allocate_locker strategy p m)"
  by (cases strategy)
    (simp_all add: LockerFirstAvailable_allocate_locker_def MostAvailable_allocate_locker_def
      LockerManager_find_available_locker_def split: option.splits prod.splits)

section \<open>A second allocation for the same owner\<close>

text \<open>
  C2 (amended). Receiving a package performs no duplicate-owner check. In every state
  reached from the empty manager in which the customer of a package already has an index
  entry (locker \<open>r0\<close>), receiving another package for that customer succeeds whenever
  the strategy selects a locker \<open>r\<close>: it returns that locker's id, \<open>r\<close> differs
  from \<open>r0\<close>, the index entry is re-pointed at \<open>r\<close>, and both lockers hold
  packages of the customer. What the strategy selects does not depend on the index at
  all. The parking lot behaves alike: a vehicle that is already parked is parked again, in
  another spot, and occupies both.
\<close>


theorem second_allocate_not_rejected:
  "(lockers_by_customer (run ops LockerManager_empty) (customer_id p) = Some r0 \<and>
    fst (allocate_locker strategy p (run ops LockerManager_empty)) = Some r \<longrightarrow>
      fst (receive_package strategy p (run ops LockerManager_empty)) =
        locker_id (objects (run ops LockerManager_empty) ! r) \<and>
      r \<noteq> r0 \<and>
      lockers_by_customer (snd (receive_package strategy p (run ops LockerManager_empty))) (customer_id p)
        = Some r \<and>
      occupant (objects (snd (receive_package strategy p (run ops LockerManager_empty))) ! r)
        = Some (customer_id p) \<and>
      occupant (objects (snd (receive_package strategy p (run ops LockerManager_empty))) ! r0)
        = Some (customer_id p)) \<and>
   fst (allocate_locker strategy p (m\<lparr>lockers_by_customer := idx\<rparr>)) = fst (allocate_locker strategy p m) \<and>
   (valid_ref (levels c) s0 \<and> parked (spot_at (levels c) s0) = Some v \<and>
    find_spot (allocation_strategy c) v (levels c) = Inr (Some s) \<longrightarrow>
      fst (park_vehicle v c) =
        Inr (''Vehicle '' @ license_plate v @ '' parked in spot '' @ spot_id (spot_at (levels c) s)) \<and>
      s \<noteq> s0 \<and>
      parked (spot_at (levels (snd (park_vehicle v c))) s) = Some v \<and>
      parked (spot_at (levels (snd (park_vehicle v c))) s0) = Some v)"
proof (intro conjI impI)
  let ?M = "run ops LockerManager_empty"
  assume a: "lockers_by_customer ?M (customer_id p) = Some r0 \<and>
    fst (allocate_locker strategy p ?M) = Some r"
  then have i: "lockers_by_customer ?M (customer_id p) = Some r0"
    and al: "fst (allocate_locker strategy p ?M) = Some r" by simp_all
  have w: "wf_manager ?M" by (rule wf_run[OF wf_empty])
  have snd: "index_sound ?M" by (rule index_sound_run[OF wf_empty index_sound_empty])
  note rt = locker_round_trip[OF w al]
  have o0: "r0 < length (objects ?M)" "occupant (objects ?M ! r0) = Some (customer_id p)"
    using snd i by (simp_all add: index_sound_def)
  have free: "occupant (objects ?M ! r) = None"
    using allocate_locker_Some(2)[OF al] by (simp add: occupant_simps)
  show ne: "r \<noteq> r0" using o0(2) free by auto
  show "fst (receive_package strategy p ?M) = locker_id (objects ?M ! r)" by (rule rt(1))
  show "lockers_by_customer (snd (receive_package strategy p ?M)) (customer_id p) = Some r" by (rule rt(3))
  show "occupant (objects (snd (receive_package strategy p ?M)) ! r) = Some (customer_id p)" by (rule rt(2))
  have "objects (snd (receive_package strategy p ?M)) = (objects ?M)[r := (objects ?M ! r)\<lparr>stored := Some p\<rparr>]"
    by (simp add: receive_package_Some[OF al] store_package_fields allocate_locker_frame)
  then show "occupant (objects (snd (receive_package strategy p ?M)) ! r0) = Some (customer_id p)"
    using ne o0 by simp
next
  show "fst (allocate_locker strategy p (m\<lparr>lockers_by_customer := idx\<rparr>)) = fst (allocate_locker strategy p m)"
    by (rule allocate_locker_index_independent)
next
  assume a: "valid_ref (levels c) s0 \<and> parked (spot_at (levels c) s0) = Some v \<and>
    find_spot (allocation_strategy c) v (levels c) = Inr (Some s)"
  then have f: "find_spot (allocation_strategy c) v (levels c) = Inr (Some s)" by simp
  note pk = find_spot_parks[OF f]
  have vs: "valid_ref (levels c) s" and av: "parked (spot_at (levels c) s) = None"
    using find_spot_sound[OF f] by (simp_all add: candidate_def ParkingSpot_is_available_def)
  show ne: "s \<noteq> s0" using a av by auto
  show "fst (park_vehicle v c) =
        Inr (''Vehicle '' @ license_plate v @ '' parked in spot '' @ spot_id (spot_at (levels c) s))"
    by (simp add: pk)
  show "parked (spot_at (levels (snd (park_vehicle v c))) s) = Some v"
    using vs by (simp add: pk spot_at_update ParkingSpot_park_vehicle_def)
  show "parked (spot_at (levels (snd (park_vehicle v c))) s0) = Some v"
    using vs ne a by (simp add: pk spot_at_update)
qed

theorem second_allocate_not_rejected_witness:
  "lockers_by_customer
     (run [Provision ''SMALL_0'' SMALL, Provision ''SMALL_1'' SMALL,
           Allocate LockerFirstAvailableStrategy (small_package ''customer_1'')] LockerManager_empty)
     (customer_id (small_package ''customer_1'')) = Some 0 \<and>
   fst (allocate_locker LockerFirstAvailableStrategy (small_package ''customer_1'')
     (run [Provision ''SMALL_0'' SMALL, Provision ''SMALL_1'' SMALL,
           Allocate LockerFirstAvailableStrategy (small_package ''customer_1'')] LockerManager_empty))
     = Some 1 \<and>
   lockers_by_customer (snd (receive_package LockerFirstAvailableStrategy (small_package ''customer_1'')
     (run [Provision ''SMALL_0'' SMALL, Provision ''SMALL_1'' SMALL,
           Allocate LockerFirstAvailableStrategy (small_package ''customer_1'')] LockerManager_empty)))
     (customer_id (small_package ''customer_1'')) = Some 1 \<and>
   valid_ref (levels (snd (park_vehicle (car ''ABC123'') (usage_lot FirstAvailableStrategy)))) (0, 0) \<and>
   parked (spot_at (levels (snd (park_vehicle (car ''ABC123'') (usage_lot FirstAvailableStrategy)))) (0, 0))
     = Some (car ''ABC123'') \<and>
   find_spot (allocation_strategy (snd (park_vehicle (car ''ABC123'') (usage_lot FirstAvailableStrategy))))
     (car ''ABC123'') (levels (snd (park_vehicle (car ''ABC123'') (usage_lot FirstAvailableStrategy))))
     = Inr (Some (0, 1)) \<and>
   parked (spot_at (levels (snd (park_vehicle (car ''ABC123'')
       (snd (park_vehicle (car ''ABC123'') (usage_lot FirstAvailableStrategy)))))) (0, 1))
     = Some (car ''ABC123'')"
proof -
  let ?ops = "[Provision ''SMALL_0'' SMALL, Provision ''SMALL_1'' SMALL,
           Allocate LockerFirstAvailableStrategy (small_package ''customer_1'')]"
  let ?p = "small_package ''customer_1''"
  let ?v = "car ''ABC123''"
  let ?c = "snd (park_vehicle ?v (usage_lot FirstAvailableStrategy))"
  have h1: "lockers_by_customer (run ?ops LockerManager_empty) (customer_id ?p) = Some 0"
    by (simp add: locker_eval small_package_def)
  have h2: "fst (allocate_locker LockerFirstAvailableStrategy ?p (run ?ops LockerManager_empty)) = Some 1"
    by (simp add: locker_eval small_package_def)
  have f0: "find_spot (allocation_strategy (usage_lot FirstAvailableStrategy)) ?v
       (levels (usage_lot FirstAvailableStrategy)) = Inr (Some (0, 0))"
    by (simp add: levels_usage_lot pool_spots_eval level_spots_def FirstAvailable_find_spot_def
        ParkingSpot_init_def ParkingSpot_is_available_def FirstAvailable_can_fit_def car_def)
  have c: "levels ?c =
     [\<lparr>level_id = ''Level1'', spots =
         [(ParkingSpot_init ''A1'' ''compact'' 10)\<lparr>parked := Some ?v\<rparr>,
          ParkingSpot_init ''A2'' ''large'' 5, ParkingSpot_init ''A3'' ''motorcycle'' 15]\<rparr>,
      \<lparr>level_id = ''Level2'', spots =
         [ParkingSpot_init ''B1'' ''compact'' 20, ParkingSpot_init ''B2'' ''large'' 25]\<rparr>]"
    "allocation_strategy ?c = FirstAvailableStrategy"
    by (simp_all add: find_spot_parks[OF f0] levels_usage_lot update_spot_def
        ParkingSpot_park_vehicle_def)
  have h3: "valid_ref (levels ?c) (0, 0)" unfolding c by (simp add: valid_ref_def)
  have h4: "parked (spot_at (levels ?c) (0, 0)) = Some ?v" unfolding c by (simp add: spot_at_def)
  have h5: "find_spot (allocation_strategy ?c) ?v (levels ?c) = Inr (Some (0, 1))"
    unfolding c
    by (simp add: pool_spots_eval level_spots_def FirstAvailable_find_spot_def
        ParkingSpot_init_def ParkingSpot_is_available_def FirstAvailable_can_fit_def car_def)
  note t = second_allocate_not_rejected[of ?ops ?p 0 LockerFirstAvailableStrategy 1 _ _ ?c "(0, 0)" ?v "(0, 1)"]
  have e1: "lockers_by_customer (snd (receive_package LockerFirstAvailableStrategy ?p
       (run ?ops LockerManager_empty))) (customer_id ?p) = Some 1"
    using t h1 h2 by blast
  have e2: "parked (spot_at (levels (snd (park_vehicle ?v ?c))) (0, 1)) = Some ?v"
    using t h3 h4 h5 by blast
  show ?thesis using h1 h2 h3 h4 h5 e1 e2 by (intro conjI)
qed

text \<open>
  C2 as stated fails: the second \<^verbatim>\<open>receive_package\<close> for a customer who holds a locker
  returns the id of another locker, and the second \<^verbatim>\<open>park_vehicle\<close> for a parked
  vehicle parks it in the next spot; nothing is rejected.
\<close>

theorem duplicate_owner_counterexample:
  "lockers_by_customer
     (run [Provision ''SMALL_0'' SMALL, Provision ''SMALL_1'' SMALL,
           Allocate LockerFirstAvailableStrategy (small_package ''customer_1'')] LockerManager_empty)
     ''customer_1'' = Some 0 \<and>
   fst (receive_package LockerFirstAvailableStrategy (small_package ''customer_1'')
     (run [Provision ''SMALL_0'' SMALL, Provision ''SMALL_1'' SMALL,
           Allocate LockerFirstAvailableStrategy (small_package ''customer_1'')] LockerManager_empty))
     = ''SMALL_1'' \<and>
   map occupant (objects (snd (receive_package LockerFirstAvailableStrategy (small_package ''customer_1'')
     (run [Provision ''SMALL_0'' SMALL, Provision ''SMALL_1'' SMALL,
           Allocate LockerFirstAvailableStrategy (small_package ''customer_1'')] LockerManager_empty))))
     = [Some ''customer_1'', Some ''customer_1''] \<and>
   fst (park_vehicle (car ''ABC123'') (usage_lot FirstAvailableStrategy))
     = Inr ''Vehicle ABC123 parked in spot A1'' \<and>
   fst (park_vehicle (car ''ABC123'')
          (snd (park_vehicle (car ''ABC123'') (usage_lot FirstAvailableStrategy))))
     = Inr ''Vehicle ABC123 parked in spot A2''"
proof -
  let ?v = "car ''ABC123''"
  let ?c = "snd (park_vehicle ?v (usage_lot FirstAvailableStrategy))"
  have f0: "find_spot (allocation_strategy (usage_lot FirstAvailableStrategy)) ?v
       (levels (usage_lot FirstAvailableStrategy)) = Inr (Some (0, 0))"
    by (simp add: levels_usage_lot pool_spots_eval level_spots_def FirstAvailable_find_spot_def
        ParkingSpot_init_def ParkingSpot_is_available_def FirstAvailable_can_fit_def car_def)
  have c: "levels ?c =
     [\<lparr>level_id = ''Level1'', spots =
         [(ParkingSpot_init ''A1'' ''compact'' 10)\<lparr>parked := Some ?v\<rparr>,
          ParkingSpot_init ''A2'' ''large'' 5, ParkingSpot_init ''A3'' ''motorcycle'' 15]\<rparr>,
      \<lparr>level_id = ''Level2'', spots =
         [ParkingSpot_init ''B1'' ''compact'' 20, ParkingSpot_init ''B2'' ''large'' 25]\<rparr>]"
    "allocation_strategy ?c = FirstAvailableStrategy"
    by (simp_all add: find_spot_parks[OF f0] levels_usage_lot update_spot_def
        ParkingSpot_park_vehicle_def)
  have f1: "find_spot (allocation_strategy ?c) ?v (levels ?c) = Inr (Some (0, 1))"
    unfolding c
    by (simp add: pool_spots_eval level_spots_def FirstAvailable_find_spot_def
        ParkingSpot_init_def ParkingSpot_is_available_def FirstAvailable_can_fit_def car_def)
  have p0: "fst (park_vehicle ?v (usage_lot FirstAvailableStrategy)) = Inr ''Vehicle ABC123 parked in spot A1''"
    unfolding find_spot_parks[OF f0] levels_usage_lot(1)
    by (simp add: spot_at_def ParkingSpot_init_def car_def)
  have p1: "fst (park_vehicle ?v ?c) = Inr ''Vehicle ABC123 parked in spot A2''"
    unfolding find_spot_parks[OF f1] c(1)
    by (simp add: spot_at_def ParkingSpot_init_def car_def)
  have l: "lockers_by_customer
     (run [Provision ''SMALL_0'' SMALL, Provision ''SMALL_1'' SMALL,
           Allocate LockerFirstAvailableStrategy (small_package ''customer_1'')] LockerManager_empty)
     ''customer_1'' = Some 0 \<and>
   fst (receive_package LockerFirstAvailableStrategy (small_package ''customer_1'')
     (run [Provision ''SMALL_0'' SMALL, Provision ''SMALL_1'' SMALL,
           Allocate LockerFirstAvailableStrategy (small_package ''customer_1'')] LockerManager_empty))
     = ''SMALL_1'' \<and>
   map occupant (objects (snd (receive_package LockerFirstAvailableStrategy (small_package ''customer_1'')
     (run [Provision ''SMALL_0'' SMALL, Provision ''SMALL_1'' SMALL,
           Allocate LockerFirstAvailableStrategy (small_package ''customer_1'')] LockerManager_empty))))
     = [Some ''customer_1'', Some ''customer_1'']"
    by (simp add: locker_eval small_package_def occupant_def)
  show ?thesis using l p0 p1 by simp
qed


section \<open>The size class with the most free lockers\<close>













section \<open>What every strategy selects\<close>





section \<open>One manager for all controllers\<close>

lemma LockerController_init_existing:
  "cls_instance ps = Some a \<Longrightarrow>
     LockerController_init strategy ps = (\<lparr>locker_strategy = strategy, locker_manager = a\<rparr>, ps)"
  by (simp add: LockerController_init_def LockerManager_new_def)

lemma LockerController_init_first:
  "cls_instance ps = None \<Longrightarrow>
     LockerController_init strategy ps =
       (\<lparr>locker_strategy = strategy, locker_manager = length (managers ps)\<rparr>,
        ps\<lparr>managers := managers ps @ [LockerManager_empty],
           cls_instance := Some (length (managers ps))\<rparr>)"
  by (simp add: LockerController_init_def LockerManager_new_def)

lemma controller_ops_frame:
  "cls_instance (snd (LockerController_receive_package c p ps)) = cls_instance ps"
  "length (managers (snd (LockerController_receive_package c p ps))) = length (managers ps)"
  "cls_instance (snd (LockerController_retrieve_package c cid ps)) = cls_instance ps"
  "length (managers (snd (LockerController_retrieve_package c cid ps))) = length (managers ps)"
  by (simp_all add: LockerController_receive_package_def LockerController_retrieve_package_def
      split: prod.splits)

lemma single_manager_act: "single_manager w \<Longrightarrow> single_manager (act x w)"
proof (cases x)
  case (Construct strategy)
  assume s: "single_manager w"
  show ?thesis
  proof (cases "cls_instance (proc w)")
    case None
    then show ?thesis using s Construct
      by (simp add: single_manager_def LockerController_init_first)
  next
    case (Some a)
    then show ?thesis using s Construct
      by (simp add: single_manager_def LockerController_init_existing)
  qed
next
  case (SetStrategy i strategy)
  assume s: "single_manager w"
  show ?thesis
  proof (cases "cls_instance (proc w)")
    case None
    then show ?thesis using s SetStrategy by (simp add: single_manager_def)
  next
    case (Some a)
    have "\<forall>c\<in>set ((controllers w)[i := LockerController_set_strategy strategy (controllers w ! i)]).
        locker_manager c = 0" if "i < length (controllers w)"
    proof
      fix c assume "c \<in> set ((controllers w)[i := LockerController_set_strategy strategy (controllers w ! i)])"
      then have "c = LockerController_set_strategy strategy (controllers w ! i) \<or> c \<in> set (controllers w)"
        by (auto dest: set_update_subset_insert[THEN subsetD])
      then show "locker_manager c = 0" using s Some that
        by (auto simp: single_manager_def LockerController_set_strategy_def)
    qed
    then show ?thesis using s Some SetStrategy by (simp add: single_manager_def)
  qed
next
  case (ProvisionDirect lid sz)
  assume s: "single_manager w"
  show ?thesis
  proof (cases "cls_instance (proc w)")
    case None
    then show ?thesis using s ProvisionDirect
      by (simp add: single_manager_def LockerManager_new_def)
  next
    case (Some a)
    then show ?thesis using s ProvisionDirect
      by (simp add: single_manager_def LockerManager_new_def)
  qed
next
  case (ReceiveVia i p)
  assume s: "single_manager w"
  then show ?thesis using ReceiveVia
    by (simp add: single_manager_def controller_ops_frame split: option.splits)
next
  case (RetrieveVia i cid)
  assume s: "single_manager w"
  then show ?thesis using RetrieveVia
    by (simp add: single_manager_def controller_ops_frame split: option.splits)
qed

lemma single_manager_start: "single_manager world_start"
  by (simp add: single_manager_def world_start_def process_start_def)

lemma single_manager_run: "single_manager w \<Longrightarrow> single_manager (run_world xs w)"
  by (induction xs arbitrary: w) (simp_all add: single_manager_act)

lemma Construct_keeps_managers:
  "a < length (managers (proc w)) \<Longrightarrow>
     managers (proc (act (Construct strategy) w)) ! a = managers (proc w) ! a"
  by (cases "cls_instance (proc w)")
    (simp_all add: LockerController_init_first LockerController_init_existing nth_append)

lemma Construct_keeps_process:
  "cls_instance (proc w) \<noteq> None \<Longrightarrow> proc (act (Construct strategy) w) = proc w"
  by (cases "cls_instance (proc w)") (simp_all add: LockerController_init_existing)

lemma ReceiveVia_seen:
  assumes "i < length (controllers w)"
    and "locker_manager (controllers w ! j) = locker_manager (controllers w ! i)"
    and "locker_manager (controllers w ! i) < length (managers (proc w))"
  shows "managers (proc (act (ReceiveVia i p) w)) ! locker_manager (controllers w ! j) =
       snd (receive_package (locker_strategy (controllers w ! i)) p
              (managers (proc w) ! locker_manager (controllers w ! i)))"
  using assms by (simp add: LockerController_receive_package_def split: prod.splits)

text \<open>
  C10. After any sequence of actions of a program (constructing controllers with any
  strategies, changing strategies, provisioning, receiving and retrieving through any
  controller), the process holds at most one \<^verbatim>\<open>LockerManager\<close> object and every
  controller constructed so far refers to it, the object the class attribute
  \<^verbatim>\<open>_instance\<close> holds. Constructing one more controller changes no existing manager
  (its lockers, their occupancy and the customer index), and leaves the whole process
  state as it is once the instance exists. A package received through one controller
  is in the manager state every other controller works on.
\<close>


theorem controllers_share_manager:
  "(\<forall>c\<in>set (controllers (run_world acts world_start)).
      cls_instance (proc (run_world acts world_start)) = Some (locker_manager c) \<and>
      locker_manager c < length (managers (proc (run_world acts world_start)))) \<and>
   length (managers (proc (run_world acts world_start))) \<le> 1 \<and>
   (\<forall>a<length (managers (proc (run_world acts world_start))).
      managers (proc (act (Construct strategy) (run_world acts world_start))) ! a =
        managers (proc (run_world acts world_start)) ! a) \<and>
   (cls_instance (proc (run_world acts world_start)) \<noteq> None \<longrightarrow>
      proc (act (Construct strategy) (run_world acts world_start)) = proc (run_world acts world_start)) \<and>
   (i < length (controllers (run_world acts world_start)) \<and>
    j < length (controllers (run_world acts world_start)) \<longrightarrow>
      managers (proc (act (ReceiveVia i p) (run_world acts world_start)))
          ! locker_manager (controllers (run_world acts world_start) ! j) =
        snd (receive_package (locker_strategy (controllers (run_world acts world_start) ! i)) p
               (managers (proc (run_world acts world_start))
                  ! locker_manager (controllers (run_world acts world_start) ! i))))"
proof -
  let ?W = "run_world acts world_start"
  have sm: "single_manager ?W" by (rule single_manager_run[OF single_manager_start])
  have a: "\<forall>c\<in>set (controllers ?W).
      cls_instance (proc ?W) = Some (locker_manager c) \<and> locker_manager c < length (managers (proc ?W))"
    using sm by (auto simp: single_manager_def split: option.splits)
  have b: "length (managers (proc ?W)) \<le> 1"
    using sm by (auto simp: single_manager_def split: option.splits)
  have c: "\<forall>a<length (managers (proc ?W)).
      managers (proc (act (Construct strategy) ?W)) ! a = managers (proc ?W) ! a"
    using Construct_keeps_managers by blast
  have d: "cls_instance (proc ?W) \<noteq> None \<longrightarrow> proc (act (Construct strategy) ?W) = proc ?W"
    using Construct_keeps_process by blast
  have e: "i < length (controllers ?W) \<and> j < length (controllers ?W) \<longrightarrow>
      managers (proc (act (ReceiveVia i p) ?W)) ! locker_manager (controllers ?W ! j) =
        snd (receive_package (locker_strategy (controllers ?W ! i)) p
               (managers (proc ?W) ! locker_manager (controllers ?W ! i)))"
  proof
    assume ij: "i < length (controllers ?W) \<and> j < length (controllers ?W)"
    then have "controllers ?W ! i \<in> set (controllers ?W)" "controllers ?W ! j \<in> set (controllers ?W)"
      by simp_all
    then have "cls_instance (proc ?W) = Some (locker_manager (controllers ?W ! i))"
      "cls_instance (proc ?W) = Some (locker_manager (controllers ?W ! j))"
      "locker_manager (controllers ?W ! i) < length (managers (proc ?W))"
      using a by blast+
    then have "locker_manager (controllers ?W ! j) = locker_manager (controllers ?W ! i)"
      "locker_manager (controllers ?W ! i) < length (managers (proc ?W))" by simp_all
    with ij show "managers (proc (act (ReceiveVia i p) ?W)) ! locker_manager (controllers ?W ! j) =
        snd (receive_package (locker_strategy (controllers ?W ! i)) p
               (managers (proc ?W) ! locker_manager (controllers ?W ! i)))"
      using ReceiveVia_seen[of i ?W j p] by blast
  qed
  show ?thesis using a b c d e by (intro conjI)
qed

lemmas world_eval = world_start_def process_start_def LockerController_init_def
  LockerManager_new_def LockerController_receive_package_def
  LockerController_retrieve_package_def LockerController_set_strategy_def

lemma two_controllers_eval:
  "controllers two_controllers =
     [\<lparr>locker_strategy = LockerFirstAvailableStrategy, locker_manager = 0\<rparr>,
      \<lparr>locker_strategy = MostAvailableStrategy, locker_manager = 0\<rparr>]"
  "cls_instance (proc two_controllers) = Some 0"
  "managers (proc two_controllers) =
     [\<lparr>objects = [\<lparr>locker_id = ''SMALL_0'', locker_size = SMALL,
                     stored = Some (small_package ''customer_1'')\<rparr>,
                  \<lparr>locker_id = ''SMALL_1'', locker_size = SMALL, stored = None\<rparr>],
       lockers_by_size = [(SMALL, [0, 1])],
       lockers_by_customer = [''customer_1'' \<mapsto> 0]\<rparr>]"
  by (simp_all add: two_controllers_def world_eval locker_eval small_package_def)

theorem controllers_share_manager_witness:
  "cls_instance (proc two_controllers) = Some (locker_manager (controllers two_controllers ! 0)) \<and>
   cls_instance (proc two_controllers) = Some (locker_manager (controllers two_controllers ! 1)) \<and>
   controllers two_controllers =
     [\<lparr>locker_strategy = LockerFirstAvailableStrategy, locker_manager = 0\<rparr>,
      \<lparr>locker_strategy = MostAvailableStrategy, locker_manager = 0\<rparr>] \<and>
   (0 :: nat) < length (managers (proc two_controllers)) \<and>
   managers (proc (act (Construct MostAvailableStrategy) two_controllers)) ! 0 =
     managers (proc two_controllers) ! 0 \<and>
   cls_instance (proc two_controllers) \<noteq> None \<and>
   proc (act (Construct MostAvailableStrategy) two_controllers) = proc two_controllers \<and>
   (0 :: nat) < length (controllers two_controllers) \<and>
   (1 :: nat) < length (controllers two_controllers) \<and>
   lockers_by_customer
     (managers (proc (act (ReceiveVia 0 (small_package ''customer_2'')) two_controllers))
        ! locker_manager (controllers two_controllers ! 1)) ''customer_2'' = Some 1"
proof -
  note t = controllers_share_manager[of
      "[ProvisionDirect ''SMALL_0'' SMALL, ProvisionDirect ''SMALL_1'' SMALL,
        Construct LockerFirstAvailableStrategy, ReceiveVia 0 (small_package ''customer_1''),
        Construct MostAvailableStrategy]" MostAvailableStrategy 0 1 "small_package ''customer_2''",
      folded two_controllers_def]
  have l: "(0 :: nat) < length (managers (proc two_controllers))"
    "cls_instance (proc two_controllers) \<noteq> None"
    "(0 :: nat) < length (controllers two_controllers)" "(1 :: nat) < length (controllers two_controllers)"
    by (simp_all add: two_controllers_eval)
  have a0: "\<forall>c\<in>set (controllers two_controllers).
      cls_instance (proc two_controllers) = Some (locker_manager c) \<and>
      locker_manager c < length (managers (proc two_controllers))"
    using t by blast
  have "controllers two_controllers ! 0 \<in> set (controllers two_controllers)"
    "controllers two_controllers ! 1 \<in> set (controllers two_controllers)"
    using l(3,4) by (simp_all del: One_nat_def)
  with a0 have a: "cls_instance (proc two_controllers) = Some (locker_manager (controllers two_controllers ! 0))"
    "cls_instance (proc two_controllers) = Some (locker_manager (controllers two_controllers ! 1))"
    by blast+
  have b: "managers (proc (act (Construct MostAvailableStrategy) two_controllers)) ! 0 =
     managers (proc two_controllers) ! 0"
    using t l(1) by blast
  have c: "proc (act (Construct MostAvailableStrategy) two_controllers) = proc two_controllers"
    using t l(2) by blast
  have d: "managers (proc (act (ReceiveVia 0 (small_package ''customer_2'')) two_controllers))
          ! locker_manager (controllers two_controllers ! 1) =
        snd (receive_package (locker_strategy (controllers two_controllers ! 0))
               (small_package ''customer_2'')
               (managers (proc two_controllers) ! locker_manager (controllers two_controllers ! 0)))"
    using t l(3,4) by blast
  have e: "lockers_by_customer
     (managers (proc (act (ReceiveVia 0 (small_package ''customer_2'')) two_controllers))
        ! locker_manager (controllers two_controllers ! 1)) ''customer_2'' = Some 1"
    unfolding d by (simp add: two_controllers_eval locker_eval small_package_def)
  show ?thesis using a b c e l two_controllers_eval(1) by (intro conjI)
qed


end
